theory Spec2Isabelle
  imports Complex_Main "HOL-Library.Word" "HOL-Library.Monad_Syntax"
begin

text \<open>
  A shallow embedding of the core of HyperCube-WebGPU: the layout engine and instance
  buffer (\<open>DataProcessor\<close>), the two selection systems with ray-cast picking
  (\<open>SelectionSystem\<close>), the camera (\<open>CameraSystem\<close>) and the rotation of
  \<open>Controls\<close>. The definitions follow the JavaScript sources function by function; the
  second part of the theory states and proves the properties.
\<close>

section \<open>JavaScript values\<close>

text \<open>
  JavaScript numbers are doubles. They are modelled by reals, and an operation whose
  JavaScript result is \<open>NaN\<close> or an infinity because a divisor is zero is written out as a
  branch of the model (the value \<open>None\<close>). The year offset of the layout and the moves of
  the camera are modelled in double arithmetic, every operation rounded by \<open>roundDouble\<close>
  below, because what is stated about them depends on the rounding; the other functions
  compute on the exact reals. A three-element array \<open>[x, y, z]\<close> is a triple.
\<close>

type_synonym vec3 = "real \<times> real \<times> real"

subsection \<open>Double arithmetic\<close>

text \<open>
  The result of an operation on doubles is the exact result rounded to the nearest double,
  ties to the even significand (IEEE 754 binary64: 53 significant bits, least exponent
  \<open>-1022\<close>, so that the doubles between \<open>2^e\<close> and \<open>2^(e+1)\<close> are the multiples of
  \<open>2^(e-52)\<close>, and the multiples of \<open>2^(-1074)\<close> below \<open>2^(-1022)\<close>). A rounded magnitude of
  \<open>2^1024\<close> or more is an infinity, here \<open>None\<close>.
\<close>

definition roundHalfEven :: "real \<Rightarrow> int" where
  "roundHalfEven y =
     (let f = \<lfloor>y\<rfloor> in
      if y - of_int f < 1 / 2 then f
      else if 1 / 2 < y - of_int f then f + 1
      else if even f then f else f + 1)"

definition doubleExponent :: "real \<Rightarrow> int" where
  "doubleExponent x = max \<lfloor>log 2 \<bar>x\<bar>\<rfloor> (- 1022)"

definition roundDouble :: "real \<Rightarrow> real option" where
  "roundDouble x =
     (if x = 0 then Some 0
      else
        let u = 2 powr of_int (doubleExponent x - 52);
            r = of_int (roundHalfEven (x / u)) * u
        in if 2 ^ 1024 \<le> \<bar>r\<bar> then None else Some r)"

text \<open>
  The operations \<open>+\<close>, \<open>-\<close>, \<open>*\<close>, \<open>/\<close> and \<open>Math.sqrt\<close> on finite doubles. The result is
  \<open>None\<close> when it is an infinity or \<open>NaN\<close>; a computation in which such a value arises is
  not followed further (its result is \<open>None\<close>).
\<close>

definition addDouble :: "real \<Rightarrow> real \<Rightarrow> real option" where
  "addDouble x y = roundDouble (x + y)"

definition subDouble :: "real \<Rightarrow> real \<Rightarrow> real option" where
  "subDouble x y = roundDouble (x - y)"

definition mulDouble :: "real \<Rightarrow> real \<Rightarrow> real option" where
  "mulDouble x y = roundDouble (x * y)"

definition divDouble :: "real \<Rightarrow> real \<Rightarrow> real option" where
  "divDouble x y = (if y = 0 then None else roundDouble (x / y))"

definition sqrtDouble :: "real \<Rightarrow> real option" where
  "sqrtDouble x = (if x < 0 then None else roundDouble (sqrt x))"

subsection \<open>The builtin \<open>parseInt\<close>\<close>

text \<open>
  \<open>parseInt(s)\<close> without a radix: leading white space is skipped, one sign is read, a
  prefix \<open>0x\<close> or \<open>0X\<close> selects radix 16 (otherwise 10), the longest run of digits of that
  radix is the value, and an empty run gives \<open>NaN\<close> (here \<open>None\<close>). The result here is the
  integer the digits denote; the number \<open>parseInt\<close> returns is the double nearest to it.
  A character of a string is a code unit below 256; the white space that can be written
  so is the ASCII white space and the no-break space.
\<close>

definition isWhiteSpace :: "char \<Rightarrow> bool" where
  "isWhiteSpace c \<longleftrightarrow>
     c \<in> set [CHR 0x09, CHR 0x0A, CHR 0x0B, CHR 0x0C, CHR 0x0D, CHR 0x20, CHR 0xA0]"

definition digitValue :: "char \<Rightarrow> nat option" where
  "digitValue c =
     (let n = (of_char c :: nat) in
      if 48 \<le> n \<and> n \<le> 57 then Some (n - 48)
      else if 97 \<le> n \<and> n \<le> 122 then Some (n - 87)
      else if 65 \<le> n \<and> n \<le> 90 then Some (n - 55)
      else None)"

fun radixDigits :: "nat \<Rightarrow> string \<Rightarrow> nat list" where
  "radixDigits R [] = []"
| "radixDigits R (c # cs) =
     (case digitValue c of
        None \<Rightarrow> []
      | Some d \<Rightarrow> if d < R then d # radixDigits R cs else [])"

definition parseInt :: "string \<Rightarrow> int option" where
  "parseInt s =
     (let S = dropWhile isWhiteSpace s;
          sign = (if take 1 S = ''-'' then - 1 else 1);
          S1 = (if take 1 S = ''-'' \<or> take 1 S = ''+'' then drop 1 S else S);
          hex = (take 2 S1 = ''0x'' \<or> take 2 S1 = ''0X'');
          R = (if hex then 16 else 10);
          S2 = (if hex then drop 2 S1 else S1);
          Z = radixDigits R S2
      in if Z = [] then None
         else Some (sign * int (foldl (\<lambda>acc d. acc * R + d) 0 Z)))"

subsection \<open>Array helpers\<close>

text \<open>\<open>Array.prototype.findIndex\<close> and \<open>indexOf\<close>: the first matching index, or \<open>-1\<close>.\<close>

fun findIndex :: "('a \<Rightarrow> bool) \<Rightarrow> 'a list \<Rightarrow> int" where
  "findIndex P [] = - 1"
| "findIndex P (x # xs) =
     (if P x then 0 else (let r = findIndex P xs in if r = - 1 then - 1 else r + 1))"

definition indexOf :: "'a list \<Rightarrow> 'a \<Rightarrow> int" where
  "indexOf xs v = findIndex (\<lambda>x. x = v) xs"

text \<open>\<open>[...new Set(xs)]\<close>: the distinct elements in order of first occurrence.\<close>

fun uniq :: "'a list \<Rightarrow> 'a list \<Rightarrow> 'a list" where
  "uniq seen [] = seen"
| "uniq seen (x # xs) = uniq (if x \<in> set seen then seen else seen @ [x]) xs"

section \<open>DataProcessor (webgpu/core/processor.js)\<close>

text \<open>
  A record of the data set. \<open>PubYear\<close> is the text of the field; a numeric field is its
  decimal text, which \<open>parseInt\<close> and \<open>===\<close> treat alike.
\<close>

record article =
  PMID :: string
  PubYear :: string
  Source :: string

text \<open>
  One instance is eight consecutive floats of the instance array: position, color, size
  and the selected flag. \<open>instPosition\<close> or \<open>instColor\<close> is \<open>None\<close> when a component is
  \<open>NaN\<close> or infinite. The fields hold the numbers written; whether a \<open>Float32Array\<close> slot
  keeps such a number finite is \<open>float32Finite\<close> below.
\<close>

record cubeInstance =
  instPosition :: "vec3 option"
  instColor :: "vec3 option"
  instSize :: real
  instSelected :: real

definition zeroInstance :: cubeInstance where
  "zeroInstance =
     \<lparr>instPosition = Some (0, 0, 0), instColor = Some (0, 0, 0), instSize = 0,
      instSelected = 0\<rparr>"

text \<open>
  \<open>cubeData\<close> is the content of the GPU buffer (\<open>None\<close> while it is \<open>null\<close>), one entry
  per 32 bytes of its size.
\<close>

record DataProcessor =
  data :: "article list"
  cubeData :: "cubeInstance list option"
  instanceCount :: nat
  layoutMode :: string

definition newDataProcessor :: DataProcessor where
  "newDataProcessor = \<lparr>data = [], cubeData = None, instanceCount = 0, layoutMode = ''grid''\<rparr>"

text \<open>\<open>parseInt(article.PubYear) || 2000\<close>: \<open>NaN\<close> and \<open>0\<close> are falsy.\<close>

definition yearOr2000 :: "article \<Rightarrow> int" where
  "yearOr2000 a =
     (case parseInt (PubYear a) of None \<Rightarrow> 2000 | Some y \<Rightarrow> if y = 0 then 2000 else y)"

definition positionByGrid :: "DataProcessor \<Rightarrow> article \<Rightarrow> nat \<Rightarrow> vec3 option" where
  "positionByGrid dp a index =
     (let gridSize = nat \<lceil>sqrt (real (instanceCount dp))\<rceil> in
      if gridSize = 0 then None
      else
        let x = (real (index mod gridSize) - real gridSize / 2) * 2.5;
            z = (of_int \<lfloor>real index / real gridSize\<rfloor> - real gridSize / 2) * 2.5
        in Some (x, 0, z))"

text \<open>
  The constant \<open>yearOffset\<close> of \<open>positionByYear\<close>, in double arithmetic: the year is the
  double nearest to the integer read, and the subtraction and the product round again.
  It is \<open>None\<close> when it is an infinity.
\<close>

definition yearOffset :: "article \<Rightarrow> real option" where
  "yearOffset a =
     do {
       year \<leftarrow> roundDouble (of_int (yearOr2000 a));
       difference \<leftarrow> subDouble year 1990;
       mulDouble difference 3
     }"

definition positionByYear :: "DataProcessor \<Rightarrow> article \<Rightarrow> nat \<Rightarrow> vec3 option" where
  "positionByYear dp a index =
     (let yearData = filter (\<lambda>b. PubYear b = PubYear a) (data dp);
          yearIndex = findIndex (\<lambda>b. PMID b = PMID a) yearData
      in case yearOffset a of
           None \<Rightarrow> None
         | Some offset \<Rightarrow> Some (offset, of_int yearIndex * 1.5, 0))"

text \<open>
  \<open>Math.random()\<close> is the stream \<open>rnd\<close> read at a counter \<open>k\<close>; every function that draws
  returns the counter after its draws.
\<close>

definition positionByJournal ::
  "DataProcessor \<Rightarrow> (nat \<Rightarrow> real) \<Rightarrow> nat \<Rightarrow> article \<Rightarrow> nat \<Rightarrow> vec3 option \<times> nat" where
  "positionByJournal dp rnd k a index =
     (let journals = uniq [] (map Source (data dp));
          journalIndex = indexOf journals (Source a);
          radius = 15
      in if length journals = 0 then (None, k + 1)
         else
           let angle = (of_int journalIndex / real (length journals)) * pi * 2
           in (Some (cos angle * radius, rnd k * 5, sin angle * radius), k + 1))"

definition positionByCluster ::
  "DataProcessor \<Rightarrow> (nat \<Rightarrow> real) \<Rightarrow> nat \<Rightarrow> article \<Rightarrow> nat \<Rightarrow> vec3 option \<times> nat" where
  "positionByCluster dp rnd k a index =
     (let clusterSize = nat \<lceil>sqrt (real (instanceCount dp) / 4)\<rceil> in
      if clusterSize = 0 then (None, k + 3)
      else
        let clusterX = \<lfloor>real index / real clusterSize\<rfloor>;
            clusterZ = index mod clusterSize
        in (Some (of_int clusterX * 6 + (rnd k - 0.5) * 2,
                  (rnd (k + 1) - 0.5) * 3,
                  real clusterZ * 6 + (rnd (k + 2) - 0.5) * 2), k + 3))"

definition calculatePosition ::
  "DataProcessor \<Rightarrow> (nat \<Rightarrow> real) \<Rightarrow> nat \<Rightarrow> article \<Rightarrow> nat \<Rightarrow> vec3 option \<times> nat" where
  "calculatePosition dp rnd k a index =
     (if layoutMode dp = ''year'' then (positionByYear dp a index, k)
      else if layoutMode dp = ''journal'' then positionByJournal dp rnd k a index
      else if layoutMode dp = ''cluster'' then positionByCluster dp rnd k a index
      else (positionByGrid dp a index, k))"

text \<open>
  \<open>calculateColor\<close>; \<open>currentYear\<close> is \<open>new Date().getFullYear()\<close>. With a zero divisor the
  quotient is \<open>+Infinity\<close>, \<open>-Infinity\<close> or \<open>NaN\<close>, which the clamp sends to 1, 0 or \<open>NaN\<close>.
\<close>

definition calculateColor :: "int \<Rightarrow> article \<Rightarrow> vec3 option" where
  "calculateColor currentYear a =
     (let year = yearOr2000 a;
          minYear = 1950;
          maxYear = currentYear;
          normalized =
            (if maxYear - minYear = 0
             then (if year - minYear > 0 then Some 1
                   else if year - minYear < 0 then Some 0 else None)
             else Some (min 1 (max 0 (of_int (year - minYear) / of_int (maxYear - minYear)))))
      in case normalized of
           None \<Rightarrow> None
         | Some n \<Rightarrow> Some (n, 0.2, 1 - n))"

text \<open>
  The loop of \<open>processData\<close> from index \<open>i\<close> over the remaining articles. A write to a
  typed array beyond its length is ignored, as \<open>list_update\<close> does.
\<close>

fun fillInstances ::
  "DataProcessor \<Rightarrow> (nat \<Rightarrow> real) \<Rightarrow> int \<Rightarrow> nat \<Rightarrow> article list \<Rightarrow> nat \<Rightarrow> cubeInstance list
     \<Rightarrow> cubeInstance list \<times> nat" where
  "fillInstances dp rnd currentYear i [] k cubeInstances = (cubeInstances, k)"
| "fillInstances dp rnd currentYear i (a # as) k cubeInstances =
     (let (position, k') = calculatePosition dp rnd k a i;
          color = calculateColor currentYear a;
          size = 0.8;
          selected = 0
      in fillInstances dp rnd currentYear (Suc i) as k'
           (cubeInstances[i := \<lparr>instPosition = position, instColor = color,
                                 instSize = size, instSelected = selected\<rparr>]))"

datatype error = TypeError | GPUError

text \<open>
  \<open>queue.writeBuffer(buffer, 0, xs)\<close>: the prefix of the buffer is overwritten; a write
  longer than the buffer is rejected and leaves it as it was.
\<close>

definition writeBuffer :: "'a list \<Rightarrow> 'a list \<Rightarrow> 'a list" where
  "writeBuffer buffer xs =
     (if length xs \<le> length buffer then xs @ drop (length xs) buffer else buffer)"

definition processData ::
  "DataProcessor \<Rightarrow> (nat \<Rightarrow> real) \<Rightarrow> int \<Rightarrow> nat \<Rightarrow> error + DataProcessor \<times> nat" where
  "processData dp rnd currentYear k =
     (let (cubeInstances, k') =
            fillInstances dp rnd currentYear 0 (data dp) k
              (replicate (instanceCount dp) zeroInstance)
      in case cubeData dp of
           None \<Rightarrow> Inl TypeError
         | Some buffer \<Rightarrow> Inr (dp\<lparr>cubeData := Some (writeBuffer buffer cubeInstances)\<rparr>, k'))"

text \<open>
  \<open>uploadData\<close> creates a fresh zero-filled buffer of \<open>instanceCount\<close> instances; the bind
  group it creates afterwards is not part of the model.
\<close>

definition uploadData ::
  "DataProcessor \<Rightarrow> article list \<Rightarrow> (nat \<Rightarrow> real) \<Rightarrow> int \<Rightarrow> nat \<Rightarrow> error + DataProcessor \<times> nat" where
  "uploadData dp d rnd currentYear k =
     processData
       (dp\<lparr>data := d, instanceCount := length d,
           cubeData := Some (replicate (length d) zeroInstance)\<rparr>)
       rnd currentYear k"

definition setLayoutMode :: "DataProcessor \<Rightarrow> string \<Rightarrow> DataProcessor" where
  "setLayoutMode dp mode = dp\<lparr>layoutMode := mode\<rparr>"

definition recomputeLayout ::
  "DataProcessor \<Rightarrow> (nat \<Rightarrow> real) \<Rightarrow> int \<Rightarrow> nat \<Rightarrow> error + DataProcessor \<times> nat" where
  "recomputeLayout dp rnd currentYear k = processData dp rnd currentYear k"

definition deleteArticles ::
  "DataProcessor \<Rightarrow> string list \<Rightarrow> (nat \<Rightarrow> real) \<Rightarrow> int \<Rightarrow> nat \<Rightarrow> error + DataProcessor \<times> nat" where
  "deleteArticles dp pmids rnd currentYear k =
     (let data' = filter (\<lambda>article. \<not> (PMID article \<in> set pmids)) (data dp)
      in processData (dp\<lparr>data := data', instanceCount := length data'\<rparr>) rnd currentYear k)"

section \<open>SelectionSystem\<close>

text \<open>A JavaScript \<open>Set\<close> of strings keeps insertion order: a list without duplicates.\<close>

definition setAdd :: "'a \<Rightarrow> 'a list \<Rightarrow> 'a list" where
  "setAdd x xs = (if x \<in> set xs then xs else xs @ [x])"

definition setDelete :: "'a \<Rightarrow> 'a list \<Rightarrow> 'a list" where
  "setDelete x xs = removeAll x xs"

record selectionState =
  selectedPMIDs :: "string list"
  highlightedPMID :: "string option"

subsection \<open>The bit-packed system (webgpu/ui/controls.js)\<close>

text \<open>
  \<open>selectionBuffer\<close> holds one bit per cube, \<open>selectionStagingBuffer\<close> is the read-back
  buffer. A copy or write out of range is a GPU error; alignment rules of the API are not
  modelled.
\<close>

record SelectionSystem = selectionState +
  selectionBuffer :: "8 word list"
  selectionStagingBuffer :: "8 word list"

definition createSelectionBuffers :: "DataProcessor \<Rightarrow> SelectionSystem \<Rightarrow> SelectionSystem" where
  "createSelectionBuffers dp sel =
     (let bufferSize = nat \<lceil>real (instanceCount dp) / 8\<rceil>
      in sel\<lparr>selectionBuffer := replicate bufferSize 0,
             selectionStagingBuffer := replicate bufferSize 0\<rparr>)"

definition newSelectionSystem :: "DataProcessor \<Rightarrow> SelectionSystem" where
  "newSelectionSystem dp =
     createSelectionBuffers dp
       \<lparr>selectedPMIDs = [], highlightedPMID = None,
        selectionBuffer = [], selectionStagingBuffer = []\<rparr>"

definition readSelectionByte :: "SelectionSystem \<Rightarrow> nat \<Rightarrow> error + 8 word \<times> SelectionSystem" where
  "readSelectionByte sel byteIndex =
     (if byteIndex < length (selectionBuffer sel) \<and> 0 < length (selectionStagingBuffer sel)
      then
        let staging = (selectionStagingBuffer sel)[0 := selectionBuffer sel ! byteIndex]
        in Inr (staging ! 0, sel\<lparr>selectionStagingBuffer := staging\<rparr>)
      else Inl GPUError)"

definition updateGPUSelection :: "SelectionSystem \<Rightarrow> nat \<Rightarrow> bool \<Rightarrow> error + SelectionSystem" where
  "updateGPUSelection sel cubeIndex selected =
     (let byteIndex = cubeIndex div 8;
          bitIndex = cubeIndex mod 8
      in case readSelectionByte sel byteIndex of
           Inl e \<Rightarrow> Inl e
         | Inr (currentByte, sel') \<Rightarrow>
             let updatedByte =
                   (if selected then or currentByte (push_bit bitIndex 1)
                    else and currentByte (not (push_bit bitIndex 1)))
             in Inr (sel'\<lparr>selectionBuffer := (selectionBuffer sel')[byteIndex := updatedByte]\<rparr>))"

text \<open>
  \<open>selectByPMID\<close> returns its result (or the error it throws) together with the state it
  leaves behind.
\<close>

definition selectByPMID ::
  "DataProcessor \<Rightarrow> SelectionSystem \<Rightarrow> string \<Rightarrow> bool \<Rightarrow> (error + bool) \<times> SelectionSystem" where
  "selectByPMID dp sel pmid selected =
     (let cubeIndex = findIndex (\<lambda>article. PMID article = pmid) (data dp) in
      if cubeIndex = - 1 then (Inr False, sel)
      else
        let sel1 =
              (if selected
               then sel\<lparr>selectedPMIDs := setAdd pmid (selectedPMIDs sel),
                        highlightedPMID := Some pmid\<rparr>
               else sel\<lparr>selectedPMIDs := setDelete pmid (selectedPMIDs sel),
                        highlightedPMID :=
                          (if highlightedPMID sel = Some pmid then None else highlightedPMID sel)\<rparr>)
        in case updateGPUSelection sel1 (nat cubeIndex) selected of
             Inl e \<Rightarrow> (Inl e, sel1)
           | Inr sel2 \<Rightarrow> (Inr True, sel2))"

definition getSelected :: "'a selectionState_scheme \<Rightarrow> string list" where
  "getSelected sel = selectedPMIDs sel"

definition clearSelection :: "SelectionSystem \<Rightarrow> SelectionSystem" where
  "clearSelection sel =
     sel\<lparr>selectedPMIDs := [], highlightedPMID := None,
         selectionBuffer := replicate (length (selectionBuffer sel)) 0\<rparr>"

text \<open>\<open>SelectionSystem.deleteArticles\<close>; \<open>dp\<close> is the data processor it reads the count from.\<close>

definition selectionDeleteArticles ::
  "DataProcessor \<Rightarrow> SelectionSystem \<Rightarrow> string list \<Rightarrow> SelectionSystem" where
  "selectionDeleteArticles dp sel pmids =
     createSelectionBuffers dp
       (sel\<lparr>selectedPMIDs := foldl (\<lambda>s pmid. setDelete pmid s) (selectedPMIDs sel) pmids\<rparr>)"

subsection \<open>The simplified system (webgpu/ui/selection.js)\<close>

text \<open>
  One 32-bit word per cube, in \<open>selectionData\<close> on the CPU and in \<open>selectionBuffer32\<close> on
  the GPU; both are \<open>None\<close> until \<open>initializeSelectionBuffer\<close> has run.
\<close>

record SimplifiedSelectionSystem = selectionState +
  selectionBuffer32 :: "32 word list option"
  selectionData :: "32 word list option"

definition newSimplifiedSelectionSystem :: SimplifiedSelectionSystem where
  "newSimplifiedSelectionSystem =
     \<lparr>selectedPMIDs = [], highlightedPMID = None, selectionBuffer32 = None, selectionData = None\<rparr>"

definition initializeSelectionBuffer ::
  "DataProcessor \<Rightarrow> SimplifiedSelectionSystem \<Rightarrow> SimplifiedSelectionSystem" where
  "initializeSelectionBuffer dp sel =
     (if instanceCount dp = 0 then sel
      else sel\<lparr>selectionBuffer32 := Some (replicate (instanceCount dp) 0),
               selectionData := Some (replicate (instanceCount dp) 0)\<rparr>)"

definition simplifiedSelectByPMID ::
  "DataProcessor \<Rightarrow> SimplifiedSelectionSystem \<Rightarrow> string \<Rightarrow> bool
     \<Rightarrow> bool \<times> SimplifiedSelectionSystem" where
  "simplifiedSelectByPMID dp sel pmid selected =
     (if cubeData dp = None then (False, sel)
      else
        let cubeIndex = findIndex (\<lambda>article. PMID article = pmid) (data dp) in
        if cubeIndex = - 1 then (False, sel)
        else
          let sel1 =
                (if selected
                 then sel\<lparr>selectedPMIDs := setAdd pmid (selectedPMIDs sel),
                          highlightedPMID := Some pmid\<rparr>
                 else sel\<lparr>selectedPMIDs := setDelete pmid (selectedPMIDs sel),
                          highlightedPMID :=
                            (if highlightedPMID sel = Some pmid then None
                             else highlightedPMID sel)\<rparr>);
              v = (if selected then 1 else 0)
          in case selectionData sel1 of
               None \<Rightarrow> (True, sel1)
             | Some sd \<Rightarrow>
                 (True,
                  sel1\<lparr>selectionData := Some (sd[nat cubeIndex := v]),
                       selectionBuffer32 :=
                         (case selectionBuffer32 sel1 of
                            None \<Rightarrow> None
                          | Some buf \<Rightarrow> Some (buf[nat cubeIndex := v]))\<rparr>))"

definition simplifiedClearSelection :: "SimplifiedSelectionSystem \<Rightarrow> SimplifiedSelectionSystem" where
  "simplifiedClearSelection sel =
     (let sel1 = sel\<lparr>selectedPMIDs := [], highlightedPMID := None\<rparr>
      in case (selectionBuffer32 sel1, selectionData sel1) of
           (Some buf, Some sd) \<Rightarrow>
             let zeros = replicate (length sd) 0
             in sel1\<lparr>selectionData := Some zeros, selectionBuffer32 := Some (writeBuffer buf zeros)\<rparr>
         | _ \<Rightarrow> sel1)"

subsection \<open>Ray casting (controls.js, \<open>SelectionSystem.rayCast\<close>)\<close>

record hit =
  index :: nat
  pmid :: string
  article :: article
  distance :: real

text \<open>
  The loop of \<open>rayCast\<close> from index \<open>i\<close>. \<open>closestDistance\<close> is \<open>None\<close> while it is
  \<open>Infinity\<close>. Every comparison with \<open>NaN\<close> is false: a position that is \<open>NaN\<close>, or a
  distance \<open>0/0\<close> when the direction is the zero vector, is never a hit.
\<close>

fun rayCastLoop ::
  "DataProcessor \<Rightarrow> (nat \<Rightarrow> real) \<Rightarrow> vec3 \<Rightarrow> vec3 \<Rightarrow> nat \<Rightarrow> article list \<Rightarrow> nat
     \<Rightarrow> hit option \<Rightarrow> real option \<Rightarrow> hit option \<times> nat" where
  "rayCastLoop dp rnd origin direction i [] k closestHit closestDistance = (closestHit, k)"
| "rayCastLoop dp rnd origin direction i (cube # cubes) k closestHit closestDistance =
     (let (position, k') = calculatePosition dp rnd k cube i;
          size = 0.8;
          sphereRadius = size * 1.5
      in case position of
           None \<Rightarrow> rayCastLoop dp rnd origin direction (Suc i) cubes k' closestHit closestDistance
         | Some (p0, p1, p2) \<Rightarrow>
             (case (origin, direction) of ((o0, o1, o2), (d0, d1, d2)) \<Rightarrow>
                let oc0 = o0 - p0; oc1 = o1 - p1; oc2 = o2 - p2;
                    a = d0 * d0 + d1 * d1 + d2 * d2;
                    b = 2 * (oc0 * d0 + oc1 * d1 + oc2 * d2);
                    c = (oc0 * oc0 + oc1 * oc1 + oc2 * oc2) - (sphereRadius * sphereRadius);
                    discriminant = b * b - 4 * a * c
                in if discriminant \<ge> 0 \<and> a \<noteq> 0
                   then
                     let distance = (- b - sqrt discriminant) / (2 * a)
                     in if distance > 0 \<and>
                           (case closestDistance of None \<Rightarrow> True | Some cd \<Rightarrow> distance < cd)
                        then rayCastLoop dp rnd origin direction (Suc i) cubes k'
                               (Some \<lparr>index = i, pmid = PMID cube, article = cube,
                                      distance = distance\<rparr>)
                               (Some distance)
                        else rayCastLoop dp rnd origin direction (Suc i) cubes k'
                               closestHit closestDistance
                   else rayCastLoop dp rnd origin direction (Suc i) cubes k'
                          closestHit closestDistance))"

definition rayCast ::
  "DataProcessor \<Rightarrow> (nat \<Rightarrow> real) \<Rightarrow> nat \<Rightarrow> vec3 \<Rightarrow> vec3 \<Rightarrow> hit option \<times> nat" where
  "rayCast dp rnd k origin direction =
     rayCastLoop dp rnd origin direction 0 (data dp) k None None"

section \<open>CameraSystem (webgpu/core/camera.js)\<close>

text \<open>
  The pose and the view matrix. \<open>viewMatrix\<close> is \<open>None\<close> when it holds \<open>NaN\<close> entries.
  The projection matrix, the product and the uniform upload read the pose and the view
  matrix and write neither; of them only the time step is kept.
\<close>

record CameraSystem =
  position :: vec3
  target :: vec3
  up :: vec3
  viewMatrix :: "real list option"
  time :: real

text \<open>\<open>normalize\<close>: a zero length gives \<open>0/0\<close> in every component (\<open>None\<close>).\<close>

fun normalize :: "vec3 \<Rightarrow> vec3 option" where
  "normalize (v0, v1, v2) =
     (let length = sqrt (v0 * v0 + v1 * v1 + v2 * v2)
      in if length = 0 then None else Some (v0 / length, v1 / length, v2 / length))"

fun subtractVectors :: "vec3 \<Rightarrow> vec3 \<Rightarrow> vec3" where
  "subtractVectors (a0, a1, a2) (b0, b1, b2) = (a0 - b0, a1 - b1, a2 - b2)"

fun cross :: "vec3 \<Rightarrow> vec3 \<Rightarrow> vec3" where
  "cross (a0, a1, a2) (b0, b1, b2) =
     (a1 * b2 - a2 * b1, a2 * b0 - a0 * b2, a0 * b1 - a1 * b0)"

fun dot :: "vec3 \<Rightarrow> vec3 \<Rightarrow> real" where
  "dot (a0, a1, a2) (b0, b1, b2) = a0 * b0 + a1 * b1 + a2 * b2"

text \<open>The matrix that \<open>updateViewMatrix\<close> stores, in the order of its sixteen entries.\<close>

definition updateViewMatrix :: "CameraSystem \<Rightarrow> real list option" where
  "updateViewMatrix cam =
     (case normalize (subtractVectors (target cam) (position cam)) of
        None \<Rightarrow> None
      | Some z \<Rightarrow>
          (case normalize (cross (up cam) z) of
             None \<Rightarrow> None
           | Some x \<Rightarrow>
               let y = cross z x in
               case (x, y, z) of ((x0, x1, x2), (y0, y1, y2), (z0, z1, z2)) \<Rightarrow>
                 Some [x0, y0, z0, 0,
                       x1, y1, z1, 0,
                       x2, y2, z2, 0,
                       - dot x (position cam), - dot y (position cam), - dot z (position cam), 1]))"

definition updateMatrices :: "CameraSystem \<Rightarrow> CameraSystem" where
  "updateMatrices cam = cam\<lparr>viewMatrix := updateViewMatrix cam, time := time cam + 0.01\<rparr>"

text \<open>
  \<open>v[i] + w[i] * s\<close> on the three components.
\<close>

fun addScaled :: "vec3 \<Rightarrow> vec3 \<Rightarrow> real \<Rightarrow> vec3" where
  "addScaled (v0, v1, v2) (w0, w1, w2) delta =
     (v0 + w0 * delta, v1 + w1 * delta, v2 + w2 * delta)"

text \<open>
  The moves are modelled in double arithmetic: \<open>subtractVectorsDouble\<close>, \<open>normalizeDouble\<close>
  and \<open>crossDouble\<close> are \<open>subtractVectors\<close>, \<open>normalize\<close> and \<open>cross\<close> with every operation
  rounded, in the order JavaScript evaluates them, and \<open>addScaledDouble\<close> is
  \<open>v[i] += w[i] * distance\<close> on the three components, the product and the sum rounded.
\<close>

fun subtractVectorsDouble :: "vec3 \<Rightarrow> vec3 \<Rightarrow> vec3 option" where
  "subtractVectorsDouble (a0, a1, a2) (b0, b1, b2) =
     do {
       c0 \<leftarrow> subDouble a0 b0;
       c1 \<leftarrow> subDouble a1 b1;
       c2 \<leftarrow> subDouble a2 b2;
       Some (c0, c1, c2)
     }"

fun normalizeDouble :: "vec3 \<Rightarrow> vec3 option" where
  "normalizeDouble (v0, v1, v2) =
     do {
       s0 \<leftarrow> mulDouble v0 v0;
       s1 \<leftarrow> mulDouble v1 v1;
       s01 \<leftarrow> addDouble s0 s1;
       s2 \<leftarrow> mulDouble v2 v2;
       s \<leftarrow> addDouble s01 s2;
       length \<leftarrow> sqrtDouble s;
       n0 \<leftarrow> divDouble v0 length;
       n1 \<leftarrow> divDouble v1 length;
       n2 \<leftarrow> divDouble v2 length;
       Some (n0, n1, n2)
     }"

fun crossDouble :: "vec3 \<Rightarrow> vec3 \<Rightarrow> vec3 option" where
  "crossDouble (a0, a1, a2) (b0, b1, b2) =
     do {
       p0 \<leftarrow> mulDouble a1 b2;
       q0 \<leftarrow> mulDouble a2 b1;
       c0 \<leftarrow> subDouble p0 q0;
       p1 \<leftarrow> mulDouble a2 b0;
       q1 \<leftarrow> mulDouble a0 b2;
       c1 \<leftarrow> subDouble p1 q1;
       p2 \<leftarrow> mulDouble a0 b1;
       q2 \<leftarrow> mulDouble a1 b0;
       c2 \<leftarrow> subDouble p2 q2;
       Some (c0, c1, c2)
     }"

fun addScaledDouble :: "vec3 \<Rightarrow> vec3 \<Rightarrow> real \<Rightarrow> vec3 option" where
  "addScaledDouble (v0, v1, v2) (w0, w1, w2) delta =
     do {
       p0 \<leftarrow> mulDouble w0 delta;
       r0 \<leftarrow> addDouble v0 p0;
       p1 \<leftarrow> mulDouble w1 delta;
       r1 \<leftarrow> addDouble v1 p1;
       p2 \<leftarrow> mulDouble w2 delta;
       r2 \<leftarrow> addDouble v2 p2;
       Some (r0, r1, r2)
     }"

text \<open>
  \<open>moveForward\<close> and \<open>moveRight\<close>. The direction is computed once, from the pose before
  the move. The result is \<open>None\<close> when a value of the computation is not a finite double:
  the direction is \<open>NaN\<close> when target and position coincide, and a product or a sum can
  overflow.
\<close>

definition moveForward :: "real \<Rightarrow> CameraSystem \<Rightarrow> CameraSystem option" where
  "moveForward delta cam =
     do {
       difference \<leftarrow> subtractVectorsDouble (target cam) (position cam);
       direction \<leftarrow> normalizeDouble difference;
       position' \<leftarrow> addScaledDouble (position cam) direction delta;
       target' \<leftarrow> addScaledDouble (target cam) direction delta;
       Some (updateMatrices (cam\<lparr>position := position', target := target'\<rparr>))
     }"

definition moveRight :: "real \<Rightarrow> CameraSystem \<Rightarrow> CameraSystem option" where
  "moveRight delta cam =
     do {
       difference \<leftarrow> subtractVectorsDouble (target cam) (position cam);
       direction \<leftarrow> normalizeDouble difference;
       right \<leftarrow> crossDouble direction (up cam);
       position' \<leftarrow> addScaledDouble (position cam) right delta;
       target' \<leftarrow> addScaledDouble (target cam) right delta;
       Some (updateMatrices (cam\<lparr>position := position', target := target'\<rparr>))
     }"

definition rotate :: "real \<Rightarrow> real \<Rightarrow> CameraSystem \<Rightarrow> CameraSystem" where
  "rotate yaw pitch cam = updateMatrices cam"

section \<open>Controls.rotateCamera (webgpu/ui/controls.js)\<close>

text \<open>
  \<open>Math.asin\<close> of an argument outside \<open>[-1, 1]\<close> is \<open>NaN\<close>, and the comparison with
  \<open>maxPitch\<close> is then false.
\<close>

definition rotateCamera :: "real \<Rightarrow> real \<Rightarrow> CameraSystem \<Rightarrow> CameraSystem option" where
  "rotateCamera yaw pitch cam =
     (case normalize (subtractVectors (target cam) (position cam)) of
        None \<Rightarrow> None
      | Some direction \<Rightarrow>
          let right = cross direction (up cam);
              yawCos = cos yaw;
              yawSin = sin yaw;
              newDirYaw = addScaled (addScaled (0, 0, 0) direction yawCos) right yawSin;
              s = fst (snd newDirYaw);
              newPitch = arcsin s + pitch;
              maxPitch = 85 * pi / 180;
              direction' =
                (if - 1 \<le> s \<and> s \<le> 1 \<and> abs newPitch < maxPitch
                 then
                   let pitchCos = cos pitch;
                       pitchSin = sin pitch;
                       pitchUp = cross right newDirYaw
                   in addScaled (addScaled (0, 0, 0) newDirYaw pitchCos) pitchUp pitchSin
                 else newDirYaw)
          in case normalize direction' of
               None \<Rightarrow> None
             | Some final \<Rightarrow>
                 Some (updateMatrices
                         (cam\<lparr>target := addScaled (position cam) final 5\<rparr>)))"

section \<open>Scenario data and notions used in the statements\<close>

text \<open>The four records of the grid scenario: years 1990, 1990, 2000 and 2010.\<close>

definition scenarioRecords :: "article list" where
  "scenarioRecords =
     [\<lparr>PMID = ''r0'', PubYear = ''1990'', Source = ''Nature''\<rparr>,
      \<lparr>PMID = ''r1'', PubYear = ''1990'', Source = ''Science''\<rparr>,
      \<lparr>PMID = ''r2'', PubYear = ''2000'', Source = ''Nature''\<rparr>,
      \<lparr>PMID = ''r3'', PubYear = ''2010'', Source = ''JAMA''\<rparr>]"

definition scenarioProcessor :: DataProcessor where
  "scenarioProcessor = newDataProcessor\<lparr>data := scenarioRecords, instanceCount := 4\<rparr>"

text \<open>The clamp to \<open>[0, 1]\<close> and the linear interpolation between two colours.\<close>

definition clamp01 :: "real \<Rightarrow> real" where
  "clamp01 t = min 1 (max 0 t)"

fun interpolate :: "vec3 \<Rightarrow> vec3 \<Rightarrow> real \<Rightarrow> vec3" where
  "interpolate (a0, a1, a2) (b0, b1, b2) t =
     (a0 + (b0 - a0) * t, a1 + (b1 - a1) * t, a2 + (b2 - a2) * t)"

text \<open>The number of \<open>Math.random()\<close> calls one \<open>calculatePosition\<close> makes.\<close>

definition drawsPerPosition :: "DataProcessor \<Rightarrow> nat" where
  "drawsPerPosition dp =
     (if layoutMode dp = ''year'' then 0
      else if layoutMode dp = ''journal'' then 1
      else if layoutMode dp = ''cluster'' then 3
      else 0)"

text \<open>
  A number stored in a \<open>Float32Array\<close> slot is rounded to the nearest float32. It is
  stored as an infinity exactly when its magnitude reaches \<open>2^128 - 2^103\<close>, half a unit
  in the last place above the largest float32.
\<close>

definition float32Finite :: "real \<Rightarrow> bool" where
  "float32Finite x \<longleftrightarrow> \<bar>x\<bar> < 2 ^ 128 - 2 ^ 103"

text \<open>The processor a call leaves behind, and the instances a draw call reads from it.\<close>

definition theProcessor :: "error + DataProcessor \<times> nat \<Rightarrow> DataProcessor" where
  "theProcessor r = (case r of Inl e \<Rightarrow> newDataProcessor | Inr (dp, k) \<Rightarrow> dp)"

definition attributesView :: "DataProcessor \<Rightarrow> cubeInstance list" where
  "attributesView dp =
     (case cubeData dp of None \<Rightarrow> [] | Some buffer \<Rightarrow> take (instanceCount dp) buffer)"

text \<open>A run of \<open>Math.random()\<close> that always returns 0, and the scenario after each step:
  upload, selecting record \<open>r0\<close>, and a re-layout.\<close>

definition noRandom :: "nat \<Rightarrow> real" where
  "noRandom k = 0"

definition scenarioUploaded :: DataProcessor where
  "scenarioUploaded = theProcessor (uploadData newDataProcessor scenarioRecords noRandom 2026 0)"

definition scenarioSelection :: SimplifiedSelectionSystem where
  "scenarioSelection =
     snd (simplifiedSelectByPMID scenarioUploaded
            (initializeSelectionBuffer scenarioUploaded newSimplifiedSelectionSystem) ''r0'' True)"

definition scenarioRecomputed :: DataProcessor where
  "scenarioRecomputed = theProcessor (recomputeLayout scenarioUploaded noRandom 2026 0)"

definition scenarioWithBuffer :: DataProcessor where
  "scenarioWithBuffer = scenarioProcessor\<lparr>cubeData := Some (replicate 4 zeroInstance)\<rparr>"

text \<open>The scenario with the bit-packed selection system: \<open>r0\<close> is selected and then
  deleted from the processor and from the selection.\<close>

definition scenarioBitSelection :: SelectionSystem where
  "scenarioBitSelection =
     snd (selectByPMID scenarioUploaded (newSelectionSystem scenarioUploaded) ''r0'' True)"

definition scenarioDeleted :: DataProcessor where
  "scenarioDeleted = theProcessor (deleteArticles scenarioUploaded [''r0''] noRandom 2026 0)"

definition scenarioSelectionAfterDelete :: SelectionSystem where
  "scenarioSelectionAfterDelete =
     selectionDeleteArticles scenarioDeleted scenarioBitSelection [''r0'']"

text \<open>The camera as its constructor leaves it, after \<open>init\<close> has run \<open>updateMatrices\<close>.\<close>

definition initialCamera :: CameraSystem where
  "initialCamera =
     updateMatrices
       \<lparr>position = (0, 1.6, 5), target = (0, 0, 0), up = (0, 1, 0),
        viewMatrix = Some (replicate 16 0), time = 0\<rparr>"

text \<open>The pitch of the view direction: the angle between \<open>target - position\<close> and the
  horizontal plane, \<open>None\<close> when target and position coincide.\<close>

definition viewPitch :: "CameraSystem \<Rightarrow> real option" where
  "viewPitch cam =
     (case normalize (subtractVectors (target cam) (position cam)) of
        None \<Rightarrow> None
      | Some d \<Rightarrow> Some (arcsin (fst (snd d))))"

text \<open>The initial camera with its target moved straight above its position.\<close>

definition lookingUp :: CameraSystem where
  "lookingUp = initialCamera\<lparr>target := (0, 6.6, 5)\<rparr>"

text \<open>A camera at the origin looking up at about 67 degrees.\<close>

definition tiltedCamera :: CameraSystem where
  "tiltedCamera =
     \<lparr>position = (0, 0, 0), target = (0, 12 / 13, 5 / 13), up = (0, 1, 0),
      viewMatrix = Some (replicate 16 0), time = 0\<rparr>"

text \<open>
  The quadratic of the ray-sphere test for a sphere of radius \<open>0.8 * 1.5\<close> centred at
  \<open>p\<close>: its coefficients, its smaller root, and the distance the loop accepts for the
  sphere (the smaller root when it is positive).
\<close>

fun quadratic :: "vec3 \<Rightarrow> vec3 \<Rightarrow> vec3 \<Rightarrow> real \<times> real \<times> real" where
  "quadratic (o0, o1, o2) (d0, d1, d2) (p0, p1, p2) =
     (d0 * d0 + d1 * d1 + d2 * d2,
      2 * ((o0 - p0) * d0 + (o1 - p1) * d1 + (o2 - p2) * d2),
      ((o0 - p0) * (o0 - p0) + (o1 - p1) * (o1 - p1) + (o2 - p2) * (o2 - p2))
        - (0.8 * 1.5) * (0.8 * 1.5))"

definition smallerRoot :: "real \<times> real \<times> real \<Rightarrow> real option" where
  "smallerRoot q =
     (case q of (a, b, c) \<Rightarrow>
        if b * b - 4 * a * c \<ge> 0 \<and> a \<noteq> 0
        then Some ((- b - sqrt (b * b - 4 * a * c)) / (2 * a)) else None)"

definition acceptedDistance :: "vec3 \<Rightarrow> vec3 \<Rightarrow> vec3 option \<Rightarrow> real option" where
  "acceptedDistance origin direction p =
     (case p of
        None \<Rightarrow> None
      | Some c \<Rightarrow>
          (case smallerRoot (quadratic origin direction c) of
             None \<Rightarrow> None
           | Some t \<Rightarrow> if t > 0 then Some t else None))"

text \<open>The centre \<open>rayCast\<close> computes for record \<open>i\<close> when it starts at random counter \<open>k\<close>.\<close>

definition pickCentre :: "DataProcessor \<Rightarrow> (nat \<Rightarrow> real) \<Rightarrow> nat \<Rightarrow> nat \<Rightarrow> vec3 option" where
  "pickCentre dp rnd k i =
     fst (calculatePosition dp rnd (k + drawsPerPosition dp * i) (data dp ! i) i)"

text \<open>The selection among accepted distances that the loop performs, on its own.\<close>

fun nearestFrom :: "nat \<Rightarrow> (article \<times> real option) list \<Rightarrow> hit option \<Rightarrow> hit option" where
  "nearestFrom i [] closestHit = closestHit"
| "nearestFrom i ((cube, None) # rest) closestHit = nearestFrom (Suc i) rest closestHit"
| "nearestFrom i ((cube, Some t) # rest) closestHit =
     (if (case closestHit of None \<Rightarrow> True | Some h \<Rightarrow> t < distance h)
      then nearestFrom (Suc i) rest
             (Some \<lparr>index = i, pmid = PMID cube, article = cube, distance = t\<rparr>)
      else nearestFrom (Suc i) rest closestHit)"

fun loopCentres :: "DataProcessor \<Rightarrow> (nat \<Rightarrow> real) \<Rightarrow> nat \<Rightarrow> nat \<Rightarrow> article list \<Rightarrow> vec3 option list" where
  "loopCentres dp rnd k i [] = []"
| "loopCentres dp rnd k i (cube # cubes) =
     fst (calculatePosition dp rnd k cube i)
       # loopCentres dp rnd (k + drawsPerPosition dp) (Suc i) cubes"

text \<open>A processor holding the first two of the scenario records, in the grid layout.\<close>

definition twoProcessor :: DataProcessor where
  "twoProcessor = newDataProcessor\<lparr>data := take 2 scenarioRecords, instanceCount := 2\<rparr>"

text \<open>
  A run of \<open>Math.random()\<close> that returns 0.9 first and 0.1 afterwards, and the first
  scenario record uploaded with it under the journal layout; the upload makes the first
  draw.
\<close>

definition twoDraws :: "nat \<Rightarrow> real" where
  "twoDraws k = (if k = 0 then 0.9 else 0.1)"

definition journalUploaded :: DataProcessor where
  "journalUploaded =
     theProcessor
       (uploadData (setLayoutMode newDataProcessor ''journal'') (take 1 scenarioRecords)
          twoDraws 2026 0)"

text \<open>A stored position whose three components are finite float32 values, and a stored
  colour whose three components lie in \<open>[0, 1]\<close>.\<close>

definition finitePosition :: "vec3 option \<Rightarrow> bool" where
  "finitePosition p =
     (case p of
        None \<Rightarrow> False
      | Some (x, y, z) \<Rightarrow> float32Finite x \<and> float32Finite y \<and> float32Finite z)"

definition unitColor :: "vec3 option \<Rightarrow> bool" where
  "unitColor c =
     (case c of
        None \<Rightarrow> False
      | Some (r, g, b) \<Rightarrow> 0 \<le> r \<and> r \<le> 1 \<and> 0 \<le> g \<and> g \<le> 1 \<and> 0 \<le> b \<and> b \<le> 1)"

text \<open>A processor after uploading no records.\<close>

definition emptyWithBuffer :: DataProcessor where
  "emptyWithBuffer = newDataProcessor\<lparr>cubeData := Some []\<rparr>"

text \<open>Whether the year offset computed for a record is stored as a finite float32.\<close>

definition yearOffsetFinite :: "article \<Rightarrow> bool" where
  "yearOffsetFinite a = (case yearOffset a of None \<Rightarrow> False | Some x \<Rightarrow> float32Finite x)"

text \<open>
  A record with a year of 39 digits for which \<open>3 * (year - 1990)\<close> is \<open>2^128 - 2^103 - 5\<close>,
  five below the least magnitude that a \<open>Float32Array\<close> stores as an infinity.
\<close>

definition thresholdYearRecord :: article where
  "thresholdYearRecord =
     \<lparr>PMID = ''t'', PubYear = ''113427452259911220545846465152714191471'', Source = ''Nature''\<rparr>"

text \<open>A record whose year has forty digits, uploaded under the year layout.\<close>

definition hugeYearRecord :: article where
  "hugeYearRecord =
     \<lparr>PMID = ''h'', PubYear = ''1000000000000000000000000000000000000000'', Source = ''Nature''\<rparr>"

definition hugeYearUploaded :: DataProcessor where
  "hugeYearUploaded =
     theProcessor
       (uploadData (setLayoutMode newDataProcessor ''year'') [hugeYearRecord] noRandom 2026 0)"

text \<open>A camera at the origin that looks along the z axis.\<close>

definition axisCamera :: CameraSystem where
  "axisCamera =
     \<lparr>position = (0, 0, 0), target = (0, 0, 1), up = (0, 1, 0),
      viewMatrix = Some (replicate 16 0), time = 0\<rparr>"

text \<open>The view direction vector \<open>target - position\<close> of a pose, and the components of a
  vector.\<close>

definition viewDirection :: "CameraSystem \<Rightarrow> vec3" where
  "viewDirection cam = subtractVectors (target cam) (position cam)"

fun component :: "vec3 \<Rightarrow> nat \<Rightarrow> real" where
  "component (v0, v1, v2) i = (if i = 0 then v0 else if i = 1 then v1 else v2)"

text \<open>Half the spacing of the doubles around \<open>x\<close>: the largest error of rounding \<open>x\<close> to a
  double.\<close>

definition halfUlp :: "real \<Rightarrow> real" where
  "halfUlp x = (if x = 0 then 0 else 2 powr of_int (doubleExponent x - 53))"

text \<open>
  The directions along which the two moves translate, the vector \<open>w[i] * distance\<close> a move
  adds, and the sum of two vectors with every component rounded to a double.
\<close>

definition forwardDirection :: "CameraSystem \<Rightarrow> vec3 option" where
  "forwardDirection cam =
     do {
       difference \<leftarrow> subtractVectorsDouble (target cam) (position cam);
       normalizeDouble difference
     }"

definition rightDirection :: "CameraSystem \<Rightarrow> vec3 option" where
  "rightDirection cam =
     do {
       direction \<leftarrow> forwardDirection cam;
       crossDouble direction (up cam)
     }"

fun stepVector :: "vec3 \<Rightarrow> real \<Rightarrow> vec3 option" where
  "stepVector (w0, w1, w2) delta =
     do {
       p0 \<leftarrow> mulDouble w0 delta;
       p1 \<leftarrow> mulDouble w1 delta;
       p2 \<leftarrow> mulDouble w2 delta;
       Some (p0, p1, p2)
     }"

fun roundedSum :: "vec3 \<Rightarrow> vec3 \<Rightarrow> vec3 option" where
  "roundedSum (v0, v1, v2) (w0, w1, w2) =
     do {
       r0 \<leftarrow> addDouble v0 w0;
       r1 \<leftarrow> addDouble v1 w1;
       r2 \<leftarrow> addDouble v2 w2;
       Some (r0, r1, r2)
     }"

text \<open>
  The pose \<open>cam'\<close> is the pose \<open>cam\<close> with the vector \<open>w\<close> added to position and to
  target, each of the six sums rounded to a double, and with the same \<open>up\<close>.
\<close>

definition movedBy :: "vec3 \<Rightarrow> CameraSystem \<Rightarrow> CameraSystem \<Rightarrow> bool" where
  "movedBy w cam cam' \<longleftrightarrow>
     roundedSum (position cam) w = Some (position cam')
     \<and> roundedSum (target cam) w = Some (target cam')
     \<and> up cam' = up cam"

text \<open>
  The view direction of \<open>cam'\<close> is that of \<open>cam\<close> up to the rounding of the sums with \<open>w\<close>:
  each component differs by at most the two rounding errors, and not at all when the six
  sums are exact.
\<close>

definition directionKeptUpToRounding :: "vec3 \<Rightarrow> CameraSystem \<Rightarrow> CameraSystem \<Rightarrow> bool" where
  "directionKeptUpToRounding w cam cam' \<longleftrightarrow>
     (\<forall>i < 3. \<bar>component (viewDirection cam') i - component (viewDirection cam) i\<bar>
                \<le> halfUlp (component (position cam) i + component w i)
                  + halfUlp (component (target cam) i + component w i))
     \<and> ((\<forall>i < 3. component (position cam') i = component (position cam) i + component w i
                   \<and> component (target cam') i = component (target cam) i + component w i)
          \<longrightarrow> viewDirection cam' = viewDirection cam)"

section \<open>Rounding to a double\<close>

text \<open>
  Rounding is exact on every number \<open>m * 2^k\<close> with \<open>|m| < 2^53\<close> and \<open>k \<ge> -1074\<close> below
  the overflow threshold, in particular on the integers of magnitude below \<open>2^53\<close>; its
  error is at most half the spacing of the doubles around the number, which for a number
  of magnitude at least \<open>2^(-1022)\<close> is at most \<open>2^(-53)\<close> times that magnitude.
\<close>

lemma roundHalfEven_of_int: "roundHalfEven (of_int m) = m"
  by (simp add: roundHalfEven_def)

lemma roundHalfEven_error: "\<bar>of_int (roundHalfEven y) - y\<bar> \<le> 1 / 2"
  unfolding roundHalfEven_def Let_def by (auto simp: abs_le_iff)

lemma doubleExponent_eq:
  assumes "2 powr of_int k \<le> \<bar>x\<bar>" and "\<bar>x\<bar> < 2 powr of_int (k + 1)" and "- 1022 \<le> k"
  shows "doubleExponent x = k"
proof -
  have pos: "0 < \<bar>x\<bar>" using assms(1) by (smt (verit) powr_gt_zero)
  have "\<lfloor>log 2 \<bar>x\<bar>\<rfloor> = k"
    using floor_log_eq_powr_iff[of "\<bar>x\<bar>" 2 k] pos assms by simp
  then show ?thesis using assms(3) by (simp add: doubleExponent_def)
qed

lemma roundDouble_large:
  assumes "2 ^ (52 + j) \<le> \<bar>x\<bar>" and "\<bar>x\<bar> < 2 ^ (53 + j)"
  shows "roundDouble x =
           (let r = of_int (roundHalfEven (x / 2 ^ j)) * 2 ^ j
            in if 2 ^ 1024 \<le> \<bar>r\<bar> then None else Some r)"
proof -
  have p1: "(2::real) powr of_int (int (52 + j)) = 2 ^ (52 + j)"
    unfolding of_int_of_nat_eq by (rule powr_realpow) simp
  have a: "2 powr of_int (int (52 + j)) \<le> \<bar>x\<bar>"
    using assms(1) unfolding p1 .
  have p2: "(2::real) powr of_int (int (52 + j) + 1) = 2 ^ (53 + j)"
  proof -
    have "int (52 + j) + 1 = int (53 + j)" by simp
    then have "(2::real) powr of_int (int (52 + j) + 1) = 2 powr of_int (int (53 + j))"
      by (simp only:)
    also have "\<dots> = 2 ^ (53 + j)"
      unfolding of_int_of_nat_eq by (rule powr_realpow) simp
    finally show ?thesis .
  qed
  have b: "\<bar>x\<bar> < 2 powr of_int (int (52 + j) + 1)"
    using assms(2) unfolding p2 .
  have e: "doubleExponent x = int (52 + j)"
    by (rule doubleExponent_eq[OF a b]) simp
  have u: "(2::real) powr of_int (doubleExponent x - 52) = 2 ^ j"
  proof -
    have "int (52 + j) - 52 = int j" by simp
    then have "(2::real) powr of_int (doubleExponent x - 52) = 2 powr of_int (int j)"
      unfolding e by (simp only:)
    also have "\<dots> = 2 ^ j"
      unfolding of_int_of_nat_eq by (rule powr_realpow) simp
    finally show ?thesis .
  qed
  have nz: "x \<noteq> 0" using assms(1) by (smt (verit) zero_less_power abs_zero)
  show ?thesis using nz unfolding roundDouble_def u by (simp add: Let_def)
qed

lemma roundDouble_representable:
  assumes m: "\<bar>m\<bar> < 2 ^ 53" and k: "- 1074 \<le> k"
    and fin: "\<bar>of_int m * 2 powr of_int k\<bar> < (2::real) ^ 1024"
  shows "roundDouble (of_int m * 2 powr of_int k) = Some (of_int m * 2 powr of_int k)"
proof (cases "m = 0")
  case True
  then show ?thesis by (simp add: roundDouble_def)
next
  case False
  let ?x = "of_int m * 2 powr of_int k :: real"
  have xnz: "?x \<noteq> 0" using False by simp
  have xpos: "0 < \<bar>?x\<bar>" using xnz by simp
  have "\<bar>?x\<bar> = \<bar>of_int m\<bar> * 2 powr of_int k" by (simp add: abs_mult)
  also have "\<dots> < 2 ^ 53 * 2 powr of_int k"
  proof -
    have "\<bar>of_int m :: real\<bar> < 2 ^ 53" using m by (metis of_int_abs of_int_less_numeral_power_cancel_iff)
    then show ?thesis by (simp add: mult_strict_right_mono)
  qed
  also have "\<dots> = 2 powr (53 + of_int k)" by (simp add: powr_add)
  finally have lt: "\<bar>?x\<bar> < 2 powr (53 + of_int k)" .
  have "log 2 \<bar>?x\<bar> < log 2 (2 powr (53 + of_int k))"
    using lt xpos log_less_cancel_iff[of 2 "\<bar>?x\<bar>" "2 powr (53 + of_int k)"] by simp
  then have "log 2 \<bar>?x\<bar> < 53 + of_int k" by simp
  then have fl: "\<lfloor>log 2 \<bar>?x\<bar>\<rfloor> \<le> 52 + k" by linarith
  define e where "e = doubleExponent ?x"
  have e_le: "e - 52 \<le> k" using fl k by (simp add: e_def doubleExponent_def)
  define j where "j = nat (k - (e - 52))"
  have kj: "k = (e - 52) + int j" using e_le by (simp add: j_def)
  have pw: "(2::real) powr of_int k = 2 powr of_int (e - 52) * 2 ^ j"
    by (subst kj) (simp add: powr_add powr_realpow)
  have upos: "(0::real) < 2 powr of_int (e - 52)" by simp
  have q: "?x / 2 powr of_int (e - 52) = of_int (m * 2 ^ j)"
    using upos by (simp add: pw)
  have r: "of_int (roundHalfEven (?x / 2 powr of_int (e - 52))) * 2 powr of_int (e - 52) = ?x"
    unfolding q roundHalfEven_of_int by (simp add: pw)
  show ?thesis
    using xnz fin unfolding roundDouble_def Let_def e_def[symmetric] r by simp
qed

lemma roundDouble_int:
  assumes "\<bar>n\<bar> < 2 ^ 53"
  shows "roundDouble (of_int n) = Some (of_int n)"
proof -
  have "\<bar>of_int n :: real\<bar> < 2 ^ 53" using assms by (metis of_int_abs of_int_less_numeral_power_cancel_iff)
  moreover have "(2::real) ^ 53 < 2 ^ 1024" by (rule power_strict_increasing) simp_all
  ultimately have "\<bar>of_int n :: real\<bar> < 2 ^ 1024" by linarith
  then show ?thesis using roundDouble_representable[of n 0] assms by simp
qed

lemma roundDouble_error:
  assumes "roundDouble x = Some r"
  shows "\<bar>r - x\<bar> \<le> 2 powr of_int (doubleExponent x - 53)"
proof (cases "x = 0")
  case True
  then show ?thesis using assms by (simp add: roundDouble_def)
next
  case False
  define u :: real where "u = 2 powr of_int (doubleExponent x - 52)"
  have upos: "0 < u" by (simp add: u_def)
  have r: "r = of_int (roundHalfEven (x / u)) * u"
    using assms False unfolding roundDouble_def Let_def u_def[symmetric]
    by (simp split: if_splits)
  have "r - x = (of_int (roundHalfEven (x / u)) - x / u) * u"
    using upos by (simp add: r algebra_simps)
  then have "\<bar>r - x\<bar> = \<bar>of_int (roundHalfEven (x / u)) - x / u\<bar> * u"
    using upos by (simp add: abs_mult)
  also have "\<dots> \<le> (1 / 2) * u"
    using roundHalfEven_error[of "x / u"] upos by (simp add: mult_right_mono)
  also have "\<dots> = 2 powr of_int (doubleExponent x - 53)"
  proof -
    have "of_int (doubleExponent x - 52) = of_int (doubleExponent x - 53) + (1::real)" by simp
    then show ?thesis unfolding u_def by (simp only: powr_add) simp
  qed
  finally show ?thesis .
qed


lemma roundDouble_zero: "roundDouble 0 = Some 0"
  by (simp add: roundDouble_def)

lemma roundDouble_numeral:
  assumes "(numeral n :: int) < 2 ^ 53"
  shows "roundDouble (numeral n) = Some (numeral n)"
  using roundDouble_int[of "numeral n"] assms by simp

lemma roundDouble_neg_numeral:
  assumes "(numeral n :: int) < 2 ^ 53"
  shows "roundDouble (- numeral n) = Some (- numeral n)"
  using roundDouble_int[of "- numeral n"] assms by simp

lemma roundDouble_one: "roundDouble 1 = Some 1"
  using roundDouble_int[of 1] by simp

lemma roundDouble_minus_one: "roundDouble (- 1) = Some (- 1)"
  using roundDouble_int[of "- 1"] by simp

lemma roundDouble_two_53: "roundDouble 9007199254740992 = Some 9007199254740992"
  using roundDouble_representable[of 1 53] by (simp add: powr_realpow)

lemma roundDouble_tie: "roundDouble 9007199254740993 = Some 9007199254740992"
  using roundDouble_large[of 1 9007199254740993] by (simp add: roundHalfEven_def)

lemma halfUlp_error:
  assumes "roundDouble x = Some r"
  shows "\<bar>r - x\<bar> \<le> halfUlp x"
proof (cases "x = 0")
  case True
  then show ?thesis using assms by (simp add: roundDouble_def halfUlp_def)
next
  case False
  then show ?thesis using roundDouble_error[OF assms] by (simp add: halfUlp_def)
qed

lemma halfUlp_relative:
  assumes "2 powr (- 1022) \<le> \<bar>x\<bar>"
  shows "halfUlp x \<le> \<bar>x\<bar> / 2 ^ 53"
proof -
  have pos: "0 < \<bar>x\<bar>" using assms by (smt (verit) powr_gt_zero)
  then have nz: "x \<noteq> 0" by simp
  have "log 2 (2 powr (- 1022)) \<le> log 2 \<bar>x\<bar>"
    using assms pos by (simp del: log_powr_cancel)
  then have "- 1022 \<le> log 2 \<bar>x\<bar>" by simp
  then have "- 1022 \<le> \<lfloor>log 2 \<bar>x\<bar>\<rfloor>" by linarith
  then have e: "doubleExponent x = \<lfloor>log 2 \<bar>x\<bar>\<rfloor>" by (simp add: doubleExponent_def)
  have "of_int \<lfloor>log 2 \<bar>x\<bar>\<rfloor> \<le> log 2 \<bar>x\<bar>" by simp
  then have "2 powr of_int \<lfloor>log 2 \<bar>x\<bar>\<rfloor> \<le> 2 powr log 2 \<bar>x\<bar>"
    by (rule powr_mono) simp_all
  then have le: "2 powr of_int \<lfloor>log 2 \<bar>x\<bar>\<rfloor> \<le> \<bar>x\<bar>" using pos by simp
  have "of_int (\<lfloor>log 2 \<bar>x\<bar>\<rfloor> - 53) = of_int \<lfloor>log 2 \<bar>x\<bar>\<rfloor> + (- 53 :: real)" by simp
  then have "(2::real) powr of_int (\<lfloor>log 2 \<bar>x\<bar>\<rfloor> - 53)
               = 2 powr of_int \<lfloor>log 2 \<bar>x\<bar>\<rfloor> * 2 powr (- 53)"
    by (simp only: powr_add)
  also have "\<dots> = (2::real) powr of_int \<lfloor>log 2 \<bar>x\<bar>\<rfloor> / 2 ^ 53"
    by (simp add: powr_minus_divide)
  also have "\<dots> \<le> \<bar>x\<bar> / 2 ^ 53" using le by (simp add: divide_right_mono)
  finally show ?thesis using nz unfolding halfUlp_def e by simp
qed

section \<open>The grid layout\<close>

lemma ceil_sqrt_unique:
  assumes "0 < g" and "(g - 1) * (g - 1) < n" and "n \<le> g * g"
  shows "nat \<lceil>sqrt (real n)\<rceil> = g"
proof -
  have up: "sqrt (real n) \<le> real g"
  proof -
    have "real n \<le> (real g)\<^sup>2"
      using assms(3) by (metis of_nat_le_iff of_nat_mult power2_eq_square)
    then show ?thesis by (simp add: real_le_lsqrt)
  qed
  have lo: "real g - 1 < sqrt (real n)"
  proof -
    have "(real (g - 1))\<^sup>2 < real n"
      using assms(2) by (metis of_nat_less_iff of_nat_mult power2_eq_square)
    then have "real (g - 1) < sqrt (real n)" using real_less_rsqrt by blast
    then show ?thesis using assms(1) by (simp add: of_nat_diff)
  qed
  have "\<lceil>sqrt (real n)\<rceil> = int g" using up lo by (simp add: ceiling_unique)
  then show ?thesis by simp
qed

lemma ceil_sqrt_bounds:
  assumes "0 < n"
  shows "0 < nat \<lceil>sqrt (real n)\<rceil>
         \<and> (nat \<lceil>sqrt (real n)\<rceil> - 1) * (nat \<lceil>sqrt (real n)\<rceil> - 1) < n
         \<and> n \<le> nat \<lceil>sqrt (real n)\<rceil> * nat \<lceil>sqrt (real n)\<rceil>"
proof -
  have pos: "0 < sqrt (real n)" using assms by simp
  then have cpos: "0 < \<lceil>sqrt (real n)\<rceil>" by simp
  then obtain g where g: "\<lceil>sqrt (real n)\<rceil> = int g" and gpos: "0 < g"
    by (metis nat_0_le of_nat_0_less_iff order_less_imp_le)
  have ng: "nat \<lceil>sqrt (real n)\<rceil> = g" using g by simp
  have cc: "real_of_int \<lceil>sqrt (real n)\<rceil> - 1 < sqrt (real n)
            \<and> sqrt (real n) \<le> real_of_int \<lceil>sqrt (real n)\<rceil>"
    by (rule ceiling_correct)
  have ge: "sqrt (real n) \<le> real g" using cc g by simp
  have lt: "real (g - 1) < sqrt (real n)" using cc g gpos by (simp add: of_nat_diff)
  have "real n = (sqrt (real n))\<^sup>2" by simp
  also have "\<dots> \<le> (real g)\<^sup>2" by (rule power_mono[OF ge]) simp
  finally have "real n \<le> real (g * g)" by (simp add: power2_eq_square)
  then have hi: "n \<le> g * g" using of_nat_le_iff by blast
  have "(real (g - 1))\<^sup>2 < (sqrt (real n))\<^sup>2"
    by (rule power_strict_mono[OF lt]) simp_all
  then have "real ((g - 1) * (g - 1)) < real n" by (simp add: power2_eq_square)
  then have "(g - 1) * (g - 1) < n" using of_nat_less_iff by blast
  then show ?thesis using gpos hi ng by simp
qed

lemma floor_div_nat: "\<lfloor>real i / real g\<rfloor> = int (i div g)"
  by (simp add: floor_divide_of_nat_eq)

text \<open>
  The lattice in general. For a record count \<open>n\<close> and an index \<open>i < n\<close>, the side
  \<open>Math.ceil(Math.sqrt(n))\<close> is the least natural number whose square is at least \<open>n\<close>, and
  record \<open>i\<close> lies in cell \<open>(i mod side, i div side)\<close> of a square lattice with spacing 2.5
  whose cell \<open>(0, 0)\<close> is at \<open>(-1.25 side, 0, -1.25 side)\<close>.
\<close>

lemma grid_lattice:
  assumes "i < instanceCount dp"
  shows "0 < nat \<lceil>sqrt (real (instanceCount dp))\<rceil>
     \<and> (nat \<lceil>sqrt (real (instanceCount dp))\<rceil> - 1) * (nat \<lceil>sqrt (real (instanceCount dp))\<rceil> - 1)
           < instanceCount dp
     \<and> instanceCount dp
           \<le> nat \<lceil>sqrt (real (instanceCount dp))\<rceil> * nat \<lceil>sqrt (real (instanceCount dp))\<rceil>
     \<and> positionByGrid dp a i =
           Some (2.5 * real (i mod nat \<lceil>sqrt (real (instanceCount dp))\<rceil>)
                   - 1.25 * real (nat \<lceil>sqrt (real (instanceCount dp))\<rceil>),
                 0,
                 2.5 * real (i div nat \<lceil>sqrt (real (instanceCount dp))\<rceil>)
                   - 1.25 * real (nat \<lceil>sqrt (real (instanceCount dp))\<rceil>))
     \<and> (instanceCount dp = 4 \<longrightarrow>
            positionByGrid dp a 0 = Some (- 2.5, 0, - 2.5)
          \<and> positionByGrid dp a 1 = Some (0, 0, - 2.5)
          \<and> positionByGrid dp a 2 = Some (- 2.5, 0, 0)
          \<and> positionByGrid dp a 3 = Some (0, 0, 0))"
proof -
  have npos: "0 < instanceCount dp" using assms by simp
  note b = ceil_sqrt_bounds[OF npos]
  have g0: "nat \<lceil>sqrt (real (instanceCount dp))\<rceil> \<noteq> 0" using b by simp
  have p: "positionByGrid dp a i =
           Some (2.5 * real (i mod nat \<lceil>sqrt (real (instanceCount dp))\<rceil>)
                   - 1.25 * real (nat \<lceil>sqrt (real (instanceCount dp))\<rceil>),
                 0,
                 2.5 * real (i div nat \<lceil>sqrt (real (instanceCount dp))\<rceil>)
                   - 1.25 * real (nat \<lceil>sqrt (real (instanceCount dp))\<rceil>))"
    unfolding positionByGrid_def Let_def floor_div_nat using g0 by (simp add: algebra_simps)
  have four: "instanceCount dp = 4 \<Longrightarrow>
            positionByGrid dp a 0 = Some (- 2.5, 0, - 2.5)
          \<and> positionByGrid dp a 1 = Some (0, 0, - 2.5)
          \<and> positionByGrid dp a 2 = Some (- 2.5, 0, 0)
          \<and> positionByGrid dp a 3 = Some (0, 0, 0)"
  proof -
    assume n: "instanceCount dp = 4"
    have g: "nat \<lceil>sqrt (real (instanceCount dp))\<rceil> = 2"
      unfolding n by (rule ceil_sqrt_unique) simp_all
    show ?thesis unfolding positionByGrid_def Let_def floor_div_nat g by simp
  qed
  show ?thesis using b p four by blast
qed

text \<open>
  C3, at the failing input. For four records the side is 2 and the grid strategy puts the
  records in the cells \<open>(i mod 2, i div 2)\<close> with spacing 2.5, as the claim says, but at
  \<open>(-2.5, 0, -2.5)\<close>, \<open>(0, 0, -2.5)\<close>, \<open>(-2.5, 0, 0)\<close> and \<open>(0, 0, 0)\<close>: the code subtracts
  \<open>gridSize / 2\<close> from the cell index, so the lattice is half a cell off the origin-centred
  one and none of the four records is where the claim puts it.
\<close>

theorem grid_four_records_off_centre:
  "positionByGrid scenarioProcessor (scenarioRecords ! 0) 0 = Some (- 2.5, 0, - 2.5)
   \<and> positionByGrid scenarioProcessor (scenarioRecords ! 1) 1 = Some (0, 0, - 2.5)
   \<and> positionByGrid scenarioProcessor (scenarioRecords ! 2) 2 = Some (- 2.5, 0, 0)
   \<and> positionByGrid scenarioProcessor (scenarioRecords ! 3) 3 = Some (0, 0, 0)
   \<and> positionByGrid scenarioProcessor (scenarioRecords ! 0) 0 \<noteq> Some (- 1.25, 0, - 1.25)
   \<and> positionByGrid scenarioProcessor (scenarioRecords ! 1) 1 \<noteq> Some (1.25, 0, - 1.25)
   \<and> positionByGrid scenarioProcessor (scenarioRecords ! 2) 2 \<noteq> Some (- 1.25, 0, 1.25)
   \<and> positionByGrid scenarioProcessor (scenarioRecords ! 3) 3 \<noteq> Some (1.25, 0, 1.25)"
proof -
  have n: "instanceCount scenarioProcessor = 4"
    by (simp add: scenarioProcessor_def newDataProcessor_def)
  have g: "nat \<lceil>sqrt (real (instanceCount scenarioProcessor))\<rceil> = 2"
    unfolding n by (rule ceil_sqrt_unique) simp_all
  show ?thesis unfolding positionByGrid_def Let_def floor_div_nat g by simp
qed

section \<open>Colour by year\<close>

lemma calculateColor_formula:
  assumes "1950 < currentYear"
  shows "calculateColor currentYear a =
           Some (interpolate (0, 0.2, 1) (1, 0.2, 0)
                   (clamp01 (of_int (yearOr2000 a - 1950) / of_int (currentYear - 1950))))"
  using assms by (simp add: calculateColor_def clamp01_def Let_def)

lemma clamp01_strict:
  assumes "0 \<le> s" and "s < t" and "t \<le> 1"
  shows "clamp01 s < clamp01 t"
  using assms by (simp add: clamp01_def)

lemma parseInt_1990: "parseInt ''1990'' = Some 1990"
  by (simp add: parseInt_def isWhiteSpace_def digitValue_def)

lemma parseInt_2010: "parseInt ''2010'' = Some 2010"
  by (simp add: parseInt_def isWhiteSpace_def digitValue_def)

text \<open>
  C9. With the year of a record read as \<open>parseInt(PubYear) || 2000\<close> and a current year
  after 1950, the colour is the linear interpolation between the fixed colours
  \<open>(0, 0.2, 1)\<close> and \<open>(1, 0.2, 0)\<close> at the key \<open>(year - 1950) / (currentYear - 1950)\<close>
  clamped to \<open>[0, 1]\<close>. It depends on the year only: records with equal years get
  equal colours, a strictly later year between 1950 and the current year
  gives a strictly larger red channel, and a record whose year does not parse gets the
  colour of the year 2000.
\<close>

theorem color_by_year:
  assumes "1950 < currentYear"
  shows "calculateColor currentYear a =
           Some (interpolate (0, 0.2, 1) (1, 0.2, 0)
                   (clamp01 (of_int (yearOr2000 a - 1950) / of_int (currentYear - 1950))))
     \<and> (\<forall>y. parseInt (PubYear a) = Some y \<and> y \<noteq> 0 \<longrightarrow> yearOr2000 a = y)
     \<and> (PubYear a = PubYear b \<or> yearOr2000 a = yearOr2000 b \<longrightarrow>
          calculateColor currentYear a = calculateColor currentYear b)
     \<and> (1950 \<le> yearOr2000 a \<and> yearOr2000 a < yearOr2000 b \<and> yearOr2000 b \<le> currentYear \<longrightarrow>
          (\<exists>ra rb.
             calculateColor currentYear a = Some (ra, 0.2, 1 - ra)
           \<and> calculateColor currentYear b = Some (rb, 0.2, 1 - rb) \<and> ra < rb))
     \<and> (parseInt (PubYear a) = None \<longrightarrow>
          calculateColor currentYear a =
            Some (interpolate (0, 0.2, 1) (1, 0.2, 0)
                    (clamp01 (of_int (2000 - 1950) / of_int (currentYear - 1950)))))"
proof -
  have d: "0 < real_of_int (currentYear - 1950)" using assms by simp
  have f: "\<And>x. calculateColor currentYear x =
           Some (interpolate (0, 0.2, 1) (1, 0.2, 0)
                   (clamp01 (of_int (yearOr2000 x - 1950) / of_int (currentYear - 1950))))"
    by (rule calculateColor_formula[OF assms])
  have c2: "\<forall>y. parseInt (PubYear a) = Some y \<and> y \<noteq> 0 \<longrightarrow> yearOr2000 a = y"
    by (simp add: yearOr2000_def)
  have "PubYear a = PubYear b \<longrightarrow> yearOr2000 a = yearOr2000 b"
    by (simp add: yearOr2000_def)
  then have c3: "PubYear a = PubYear b \<or> yearOr2000 a = yearOr2000 b \<longrightarrow>
          calculateColor currentYear a = calculateColor currentYear b"
    unfolding f by auto
  have c4: "1950 \<le> yearOr2000 a \<and> yearOr2000 a < yearOr2000 b \<and> yearOr2000 b \<le> currentYear \<longrightarrow>
          (\<exists>ra rb.
             calculateColor currentYear a = Some (ra, 0.2, 1 - ra)
           \<and> calculateColor currentYear b = Some (rb, 0.2, 1 - rb) \<and> ra < rb)"
  proof
    assume h: "1950 \<le> yearOr2000 a \<and> yearOr2000 a < yearOr2000 b \<and> yearOr2000 b \<le> currentYear"
    let ?s = "real_of_int (yearOr2000 a - 1950) / real_of_int (currentYear - 1950)"
    let ?t = "real_of_int (yearOr2000 b - 1950) / real_of_int (currentYear - 1950)"
    have s0: "0 \<le> ?s" using h d by simp
    have st: "?s < ?t" using h d by (simp add: divide_strict_right_mono)
    have t1: "?t \<le> 1" using h d by simp
    have "clamp01 ?s < clamp01 ?t" by (rule clamp01_strict[OF s0 st t1])
    then have "calculateColor currentYear a = Some (clamp01 ?s, 0.2, 1 - clamp01 ?s)
           \<and> calculateColor currentYear b = Some (clamp01 ?t, 0.2, 1 - clamp01 ?t)
           \<and> clamp01 ?s < clamp01 ?t"
      unfolding f by simp
    then show "\<exists>ra rb.
             calculateColor currentYear a = Some (ra, 0.2, 1 - ra)
           \<and> calculateColor currentYear b = Some (rb, 0.2, 1 - rb) \<and> ra < rb"
      by blast
  qed
  have c5: "parseInt (PubYear a) = None \<longrightarrow>
          calculateColor currentYear a =
            Some (interpolate (0, 0.2, 1) (1, 0.2, 0)
                    (clamp01 (of_int (2000 - 1950) / of_int (currentYear - 1950))))"
    unfolding f by (simp add: yearOr2000_def)
  show ?thesis using f[of a] c2 c3 c4 c5 by blast
qed

theorem color_by_year_witness:
  "(1950::int) < 2026
   \<and> yearOr2000 (scenarioRecords ! 0) = 1990 \<and> yearOr2000 (scenarioRecords ! 3) = 2010
   \<and> calculateColor 2026 (scenarioRecords ! 0) = Some (10 / 19, 0.2, 9 / 19)
   \<and> calculateColor 2026 (scenarioRecords ! 1) = calculateColor 2026 (scenarioRecords ! 0)
   \<and> calculateColor 2026 (scenarioRecords ! 3) = Some (15 / 19, 0.2, 4 / 19)"
proof -
  have h: "(1950::int) < 2026" by simp
  have y0: "yearOr2000 (scenarioRecords ! 0) = 1990"
    by (simp add: scenarioRecords_def yearOr2000_def parseInt_1990)
  have y1: "yearOr2000 (scenarioRecords ! 1) = 1990"
    by (simp add: scenarioRecords_def yearOr2000_def parseInt_1990)
  have y3: "yearOr2000 (scenarioRecords ! 3) = 2010"
    by (simp add: scenarioRecords_def yearOr2000_def parseInt_2010)
  show ?thesis
    using h y0 y1 y3
      color_by_year[OF h, of "scenarioRecords ! 0" "scenarioRecords ! 3"]
      color_by_year[OF h, of "scenarioRecords ! 3" "scenarioRecords ! 0"]
      color_by_year[OF h, of "scenarioRecords ! 1" "scenarioRecords ! 0"]
    by (simp add: clamp01_def)
qed

section \<open>The instance buffer\<close>

lemma snd_calculatePosition:
  "snd (calculatePosition dp rnd k a i) = k + drawsPerPosition dp"
  by (simp add: calculatePosition_def drawsPerPosition_def positionByJournal_def
      positionByCluster_def Let_def)

lemma fillInstances_length:
  "length (fst (fillInstances dp rnd cy i as k buf)) = length buf"
  by (induction as arbitrary: i k buf) (simp_all add: Let_def split: prod.splits)

lemma fillInstances_counter:
  "snd (fillInstances dp rnd cy i as k buf) = k + drawsPerPosition dp * length as"
proof (induction as arbitrary: i k buf)
  case Nil
  then show ?case by simp
next
  case (Cons a as)
  obtain p k' where c: "calculatePosition dp rnd k a i = (p, k')"
    by (cases "calculatePosition dp rnd k a i")
  have k': "k' = k + drawsPerPosition dp"
    using snd_calculatePosition[of dp rnd k a i] c by simp
  show ?case using c k' by (simp add: Let_def Cons.IH)
qed

lemma fillInstances_nth:
  assumes "j < length buf"
  shows "fst (fillInstances dp rnd cy i as k buf) ! j =
           (if i \<le> j \<and> j < i + length as
            then \<lparr>instPosition = fst (calculatePosition dp rnd (k + drawsPerPosition dp * (j - i)) (as ! (j - i)) j),
                  instColor = calculateColor cy (as ! (j - i)),
                  instSize = 0.8, instSelected = 0\<rparr>
            else buf ! j)"
  using assms
proof (induction as arbitrary: i k buf)
  case Nil
  then show ?case by auto
next
  case (Cons a as)
  obtain p k' where c: "calculatePosition dp rnd k a i = (p, k')" by (cases "calculatePosition dp rnd k a i")
  have k': "k' = k + drawsPerPosition dp" using snd_calculatePosition[of dp rnd k a i] c by simp
  let ?buf = "buf[i := \<lparr>instPosition = p, instColor = calculateColor cy a, instSize = 0.8, instSelected = 0\<rparr>]"
  have len: "j < length ?buf" using Cons.prems by simp
  have step: "fillInstances dp rnd cy i (a # as) k buf = fillInstances dp rnd cy (Suc i) as k' ?buf"
    using c by (simp add: Let_def)
  note ih = Cons.IH[OF len, of "Suc i" k']
  show ?case
  proof (cases "j = i")
    case True
    then show ?thesis unfolding step ih using c Cons.prems by simp
  next
    case False
    show ?thesis
    proof (cases "Suc i \<le> j \<and> j < Suc i + length as")
      case True
      then have ji: "j - i = Suc (j - Suc i)" by arith
      have kk: "k' + drawsPerPosition dp * (j - Suc i) = k + drawsPerPosition dp * (j - i)"
        unfolding k' ji by simp
      show ?thesis unfolding step ih kk using True ji by simp
    next
      case F2: False
      then show ?thesis unfolding step ih using False by auto
    qed
  qed
qed

lemma processData_result:
  assumes "cubeData dp = Some buffer" and "instanceCount dp \<le> length buffer"
  shows "processData dp rnd cy k =
           Inr (dp\<lparr>cubeData :=
                    Some (fst (fillInstances dp rnd cy 0 (data dp) k
                                 (replicate (instanceCount dp) zeroInstance))
                          @ drop (instanceCount dp) buffer)\<rparr>,
                k + drawsPerPosition dp * length (data dp))"
proof -
  obtain xs k' where f: "fillInstances dp rnd cy 0 (data dp) k
            (replicate (instanceCount dp) zeroInstance) = (xs, k')"
    by (cases "fillInstances dp rnd cy 0 (data dp) k (replicate (instanceCount dp) zeroInstance)")
  have len: "length xs = instanceCount dp"
    using fillInstances_length[of dp rnd cy 0 "data dp" k "replicate (instanceCount dp) zeroInstance"] f
    by simp
  have k': "k' = k + drawsPerPosition dp * length (data dp)"
    using fillInstances_counter[of dp rnd cy 0 "data dp" k "replicate (instanceCount dp) zeroInstance"] f
    by simp
  show ?thesis
    unfolding processData_def f using assms len k' by (simp add: writeBuffer_def)
qed

lemma processData_attributes:
  assumes "cubeData dp = Some buffer" and "instanceCount dp = length (data dp)"
    and "length (data dp) \<le> length buffer"
  shows "\<exists>dp' k'. processData dp rnd cy k = Inr (dp', k')
           \<and> data dp' = data dp \<and> instanceCount dp' = instanceCount dp
           \<and> layoutMode dp' = layoutMode dp
           \<and> length (attributesView dp') = length (data dp)
           \<and> (\<forall>i < length (data dp).
                attributesView dp' ! i =
                  \<lparr>instPosition =
                     fst (calculatePosition dp rnd (k + drawsPerPosition dp * i) (data dp ! i) i),
                   instColor = calculateColor cy (data dp ! i),
                   instSize = 0.8, instSelected = 0\<rparr>)"
proof -
  let ?xs = "fst (fillInstances dp rnd cy 0 (data dp) k (replicate (instanceCount dp) zeroInstance))"
  have le: "instanceCount dp \<le> length buffer" using assms by simp
  note r = processData_result[OF assms(1) le, of rnd cy k]
  have len: "length ?xs = length (data dp)"
    using fillInstances_length[of dp rnd cy 0 "data dp" k "replicate (instanceCount dp) zeroInstance"] assms(2)
    by simp
  have nth: "\<And>i. i < length (data dp) \<Longrightarrow> ?xs ! i =
                  \<lparr>instPosition =
                     fst (calculatePosition dp rnd (k + drawsPerPosition dp * i) (data dp ! i) i),
                   instColor = calculateColor cy (data dp ! i),
                   instSize = 0.8, instSelected = 0\<rparr>"
  proof -
    fix i assume i: "i < length (data dp)"
    have j: "i < length (replicate (instanceCount dp) zeroInstance)" using i assms(2) by simp
    show "?xs ! i =
                  \<lparr>instPosition =
                     fst (calculatePosition dp rnd (k + drawsPerPosition dp * i) (data dp ! i) i),
                   instColor = calculateColor cy (data dp ! i),
                   instSize = 0.8, instSelected = 0\<rparr>"
      using fillInstances_nth[OF j, of dp rnd cy 0 "data dp" k] i by simp
  qed
  have view: "attributesView (dp\<lparr>cubeData := Some (?xs @ drop (instanceCount dp) buffer)\<rparr>) = ?xs"
    using len assms(2) by (simp add: attributesView_def)
  show ?thesis
    unfolding r using view len nth by simp
qed

text \<open>
  C1 (amended). For every loaded record set and every strategy, \<open>recomputeLayout\<close>
  rewrites one instance per record and writes the selected attribute of each of them as
  0. It takes no selection state: the selected set of the Selection Subsystem is neither
  read nor changed, and no flag is re-applied in the instance buffer.
\<close>

theorem recompute_writes_unselected:
  assumes "cubeData dp = Some buffer" and "instanceCount dp = length (data dp)"
    and "length (data dp) \<le> length buffer"
  shows "\<exists>dp' k'. recomputeLayout dp rnd cy k = Inr (dp', k')
           \<and> data dp' = data dp
           \<and> length (attributesView dp') = length (data dp)
           \<and> (\<forall>i < length (data dp). instSelected (attributesView dp' ! i) = 0)"
proof -
  obtain dp' k' where r: "processData dp rnd cy k = Inr (dp', k')"
    and d: "data dp' = data dp"
    and l: "length (attributesView dp') = length (data dp)"
    and n: "\<forall>i < length (data dp).
                attributesView dp' ! i =
                  \<lparr>instPosition =
                     fst (calculatePosition dp rnd (k + drawsPerPosition dp * i) (data dp ! i) i),
                   instColor = calculateColor cy (data dp ! i),
                   instSize = 0.8, instSelected = 0\<rparr>"
    using processData_attributes[OF assms, of rnd cy k] by blast
  have "\<forall>i < length (data dp). instSelected (attributesView dp' ! i) = 0"
    using n by simp
  then show ?thesis unfolding recomputeLayout_def using r d l by blast
qed

lemma scenarioUploaded_fields:
  "(\<exists>buffer. cubeData scenarioUploaded = Some buffer \<and> length buffer = 4)
   \<and> data scenarioUploaded = scenarioRecords \<and> instanceCount scenarioUploaded = 4"
proof -
  let ?dp = "newDataProcessor\<lparr>data := scenarioRecords, instanceCount := length scenarioRecords,
           cubeData := Some (replicate (length scenarioRecords) zeroInstance)\<rparr>"
  let ?xs = "fst (fillInstances ?dp noRandom 2026 0 (data ?dp) 0
                    (replicate (instanceCount ?dp) zeroInstance))"
  have a1: "cubeData ?dp = Some (replicate (length scenarioRecords) zeroInstance)" by simp
  have a2: "instanceCount ?dp \<le> length (replicate (length scenarioRecords) zeroInstance)" by simp
  note r = processData_result[OF a1 a2, of noRandom 2026 0]
  have n: "length scenarioRecords = 4" by (simp add: scenarioRecords_def)
  have len: "length ?xs = 4"
    using fillInstances_length[of ?dp noRandom 2026 0 "data ?dp" 0
        "replicate (instanceCount ?dp) zeroInstance"] n by simp
  have u: "scenarioUploaded =
      ?dp\<lparr>cubeData := Some (?xs @ drop (instanceCount ?dp)
                                    (replicate (length scenarioRecords) zeroInstance))\<rparr>"
    unfolding scenarioUploaded_def uploadData_def r by (simp add: theProcessor_def)
  have c: "cubeData scenarioUploaded = Some ?xs" by (subst u) simp
  have d: "data scenarioUploaded = scenarioRecords" by (subst u) simp
  have i: "instanceCount scenarioUploaded = 4" using n by (subst u) simp
  show ?thesis using c len d i by blast
qed

theorem recompute_writes_unselected_witness:
  "cubeData scenarioWithBuffer = Some (replicate 4 zeroInstance)
   \<and> instanceCount scenarioWithBuffer = length (data scenarioWithBuffer)
   \<and> length (data scenarioWithBuffer) \<le> length (replicate 4 zeroInstance)
   \<and> (\<exists>dp' k'. recomputeLayout scenarioWithBuffer noRandom 2026 0 = Inr (dp', k')
         \<and> length (attributesView dp') = 4
         \<and> instSelected (attributesView dp' ! 0) = 0)"
proof -
  have h1: "cubeData scenarioWithBuffer = Some (replicate 4 zeroInstance)"
    by (simp add: scenarioWithBuffer_def)
  have h2: "instanceCount scenarioWithBuffer = length (data scenarioWithBuffer)"
    by (simp add: scenarioWithBuffer_def scenarioProcessor_def scenarioRecords_def)
  have h3: "length (data scenarioWithBuffer) \<le> length (replicate 4 zeroInstance)"
    by (simp add: scenarioWithBuffer_def scenarioProcessor_def scenarioRecords_def)
  have n: "length (data scenarioWithBuffer) = 4"
    by (simp add: scenarioWithBuffer_def scenarioProcessor_def scenarioRecords_def)
  show ?thesis
    using h1 h2 h3 recompute_writes_unselected[OF h1 h2 h3, of noRandom 2026 0]
    unfolding n by auto
qed

text \<open>
  After uploading the four scenario records, selecting \<open>r0\<close> and recomputing the layout,
  \<open>r0\<close> is in the selected set and is record 0, but the selected attribute of instance 0
  is not 1.
\<close>

theorem recompute_selection_counterexample:
  "''r0'' \<in> set (getSelected scenarioSelection)
   \<and> PMID (data scenarioRecomputed ! 0) = ''r0''
   \<and> instSelected (attributesView scenarioRecomputed ! 0) \<noteq> 1"
proof -
  note u = scenarioUploaded_fields
  obtain buffer where b: "cubeData scenarioUploaded = Some buffer" and b4: "length buffer = 4"
    using u by auto
  have ic: "instanceCount scenarioUploaded = length (data scenarioUploaded)"
    using u by (simp add: scenarioRecords_def)
  have bl: "length (data scenarioUploaded) \<le> length buffer"
    using u b4 by (simp add: scenarioRecords_def)
  have idx: "findIndex (\<lambda>article. PMID article = ''r0'') (data scenarioUploaded) = 0"
    using u by (simp add: scenarioRecords_def)
  have sel: "''r0'' \<in> set (getSelected scenarioSelection)"
    unfolding scenarioSelection_def simplifiedSelectByPMID_def Let_def idx
    using b u
    by (simp add: getSelected_def initializeSelectionBuffer_def newSimplifiedSelectionSystem_def
        setAdd_def)
  obtain dp' k' where r: "processData scenarioUploaded noRandom 2026 0 = Inr (dp', k')"
    and d: "data dp' = data scenarioUploaded"
    and n: "\<forall>i < length (data scenarioUploaded).
                attributesView dp' ! i =
                  \<lparr>instPosition =
                     fst (calculatePosition scenarioUploaded noRandom
                            (0 + drawsPerPosition scenarioUploaded * i) (data scenarioUploaded ! i) i),
                   instColor = calculateColor 2026 (data scenarioUploaded ! i),
                   instSize = 0.8, instSelected = 0\<rparr>"
    using processData_attributes[OF b ic bl, of noRandom 2026 0] by blast
  have rc: "scenarioRecomputed = dp'"
    unfolding scenarioRecomputed_def recomputeLayout_def r by (simp add: theProcessor_def)
  have "0 < length (data scenarioUploaded)" using u by (simp add: scenarioRecords_def)
  then have z: "instSelected (attributesView dp' ! 0) = 0" using n by simp
  have p: "PMID (data dp' ! 0) = ''r0''" unfolding d using u by (simp add: scenarioRecords_def)
  show ?thesis using sel z p unfolding rc by simp
qed

section \<open>Selecting and deleting\<close>

lemma findIndex_none:
  "(\<forall>x \<in> set xs. \<not> P x) \<Longrightarrow> findIndex P xs = - 1"
  by (induction xs) simp_all

lemma findIndex_range:
  "- 1 \<le> findIndex P xs \<and> findIndex P xs < int (length xs)"
  by (induction xs) (auto simp: Let_def)

lemma findIndex_found:
  "(\<exists>x \<in> set xs. P x) \<Longrightarrow> 0 \<le> findIndex P xs"
proof (induction xs)
  case Nil
  then show ?case by simp
next
  case (Cons a xs)
  show ?case
  proof (cases "P a")
    case True
    then show ?thesis by simp
  next
    case False
    then have "\<exists>x \<in> set xs. P x" using Cons.prems by simp
    then have "0 \<le> findIndex P xs" by (rule Cons.IH)
    then show ?thesis using False by (simp add: Let_def)
  qed
qed

text \<open>
  C5. For every id that no current record carries, \<open>selectByPMID\<close> returns \<open>false\<close> and
  leaves the selection state as it was: the selected set, the last-touched id and the
  selection encoding are unchanged. This holds for the bit-packed system and for the
  simplified one.
\<close>

theorem select_unknown_id:
  assumes "ident \<notin> PMID ` set (data dp)"
  shows "selectByPMID dp sel ident selected = (Inr False, sel)
     \<and> simplifiedSelectByPMID dp ssel ident selected = (False, ssel)"
proof -
  have "\<forall>x \<in> set (data dp). \<not> (PMID x = ident)" using assms by auto
  then have f: "findIndex (\<lambda>article. PMID article = ident) (data dp) = - 1"
    by (rule findIndex_none)
  show ?thesis
    unfolding selectByPMID_def simplifiedSelectByPMID_def Let_def f by simp
qed

theorem select_unknown_id_witness:
  "''a'' \<notin> PMID ` set (data scenarioProcessor)
   \<and> selectByPMID scenarioProcessor (newSelectionSystem scenarioProcessor) ''a'' True
       = (Inr False, newSelectionSystem scenarioProcessor)
   \<and> getSelected (snd (selectByPMID scenarioProcessor (newSelectionSystem scenarioProcessor) ''a'' True))
       = getSelected (newSelectionSystem scenarioProcessor)
   \<and> simplifiedSelectByPMID scenarioProcessor newSimplifiedSelectionSystem ''a'' True
       = (False, newSimplifiedSelectionSystem)"
proof -
  have h: "''a'' \<notin> PMID ` set (data scenarioProcessor)"
    by (simp add: scenarioProcessor_def newDataProcessor_def scenarioRecords_def)
  show ?thesis
    using h select_unknown_id[OF h, of "newSelectionSystem scenarioProcessor" True
        newSimplifiedSelectionSystem]
    by simp
qed

lemma updateGPUSelection_cpu:
  "updateGPUSelection sel i b = Inr sel' \<Longrightarrow>
     selectedPMIDs sel' = selectedPMIDs sel \<and> highlightedPMID sel' = highlightedPMID sel"
  by (auto simp: updateGPUSelection_def readSelectionByte_def Let_def split: if_splits)

lemma selectByPMID_known:
  assumes "findIndex (\<lambda>article. PMID article = ident) (data dp) \<noteq> - 1"
  shows "selectedPMIDs (snd (selectByPMID dp sel ident True)) = setAdd ident (selectedPMIDs sel)
     \<and> highlightedPMID (snd (selectByPMID dp sel ident True)) = Some ident"
proof -
  let ?sel1 = "sel\<lparr>selectedPMIDs := setAdd ident (selectedPMIDs sel), highlightedPMID := Some ident\<rparr>"
  let ?i = "nat (findIndex (\<lambda>article. PMID article = ident) (data dp))"
  show ?thesis
  proof (cases "updateGPUSelection ?sel1 ?i True")
    case (Inl e)
    then show ?thesis using assms by (simp add: selectByPMID_def Let_def)
  next
    case (Inr sel2)
    have "selectedPMIDs sel2 = selectedPMIDs ?sel1 \<and> highlightedPMID sel2 = highlightedPMID ?sel1"
      by (rule updateGPUSelection_cpu[OF Inr])
    then show ?thesis using assms Inr by (simp add: selectByPMID_def Let_def)
  qed
qed

lemma foldl_setDelete: "set (foldl (\<lambda>s p. setDelete p s) xs ids) = set xs - set ids"
  by (induction ids arbitrary: xs) (auto simp: setDelete_def)

lemma selectionDeleteArticles_effect:
  "set (getSelected (selectionDeleteArticles dp sel ids)) = set (getSelected sel) - set ids
   \<and> highlightedPMID (selectionDeleteArticles dp sel ids) = highlightedPMID sel
   \<and> selectionBuffer (selectionDeleteArticles dp sel ids)
       = replicate (nat \<lceil>real (instanceCount dp) / 8\<rceil>) 0"
  by (simp add: selectionDeleteArticles_def createSelectionBuffers_def getSelected_def
      foldl_setDelete Let_def)

lemma deleteArticles_count:
  assumes "cubeData dp = Some buffer" and "length (data dp) \<le> length buffer"
  shows "\<exists>dp' k'. deleteArticles dp ids rnd cy k = Inr (dp', k')
     \<and> data dp' = filter (\<lambda>a. PMID a \<notin> set ids) (data dp)
     \<and> instanceCount dp' = length (data dp) - length (filter (\<lambda>a. PMID a \<in> set ids) (data dp))"
proof -
  let ?d = "filter (\<lambda>article. \<not> (PMID article \<in> set ids)) (data dp)"
  let ?dp = "dp\<lparr>data := ?d, instanceCount := length ?d\<rparr>"
  have a1: "cubeData ?dp = Some buffer" using assms by simp
  have le: "length ?d \<le> length (data dp)" by simp
  have "length ?d \<le> length buffer" using assms(2) le by (rule order_trans[rotated])
  then have a2: "instanceCount ?dp \<le> length buffer" by simp
  note r = processData_result[OF a1 a2, of rnd cy k]
  have c: "length ?d = length (data dp) - length (filter (\<lambda>a. PMID a \<in> set ids) (data dp))"
    using sum_length_filter_compl[of "\<lambda>a. PMID a \<in> set ids" "data dp"] by simp
  show ?thesis unfolding deleteArticles_def Let_def r using c by simp
qed

text \<open>
  C2, at the failing input. Record \<open>r0\<close> of the four scenario records is selected, so
  it is the selected set and the last-touched id; then it is deleted. Afterwards the
  selected set is empty and three instances remain, but the last-touched id is still
  \<open>r0\<close>.
\<close>

theorem delete_keeps_highlight:
  "getSelected scenarioBitSelection = [''r0'']
   \<and> highlightedPMID scenarioBitSelection = Some ''r0''
   \<and> getSelected scenarioSelectionAfterDelete = []
   \<and> instanceCount scenarioDeleted = 3
   \<and> highlightedPMID scenarioSelectionAfterDelete = Some ''r0''"
proof -
  note u = scenarioUploaded_fields
  obtain buffer where b: "cubeData scenarioUploaded = Some buffer" and b4: "length buffer = 4"
    using u by auto
  have idx: "findIndex (\<lambda>article. PMID article = ''r0'') (data scenarioUploaded) \<noteq> - 1"
    using u by (simp add: scenarioRecords_def)
  have s: "selectedPMIDs scenarioBitSelection = [''r0'']
      \<and> highlightedPMID scenarioBitSelection = Some ''r0''"
    unfolding scenarioBitSelection_def
    using selectByPMID_known[OF idx, of "newSelectionSystem scenarioUploaded"]
    by (simp add: newSelectionSystem_def createSelectionBuffers_def setAdd_def Let_def)
  have bl: "length (data scenarioUploaded) \<le> length buffer"
    using u b4 by (simp add: scenarioRecords_def)
  obtain dp' k' where r: "deleteArticles scenarioUploaded [''r0''] noRandom 2026 0 = Inr (dp', k')"
    and c: "instanceCount dp' = length (data scenarioUploaded)
              - length (filter (\<lambda>a. PMID a \<in> set [''r0'']) (data scenarioUploaded))"
    using deleteArticles_count[OF b bl, of "[''r0'']" noRandom 2026 0] by blast
  have d: "scenarioDeleted = dp'" unfolding scenarioDeleted_def r by (simp add: theProcessor_def)
  have c3: "instanceCount scenarioDeleted = 3"
    unfolding d c using u by (simp add: scenarioRecords_def)
  have after: "set (getSelected scenarioSelectionAfterDelete) = {}
      \<and> highlightedPMID scenarioSelectionAfterDelete = Some ''r0''"
    unfolding scenarioSelectionAfterDelete_def
    using selectionDeleteArticles_effect[of scenarioDeleted scenarioBitSelection "[''r0'']"] s
    by (simp add: getSelected_def)
  show ?thesis using s c3 after by (simp add: getSelected_def)
qed

section \<open>The camera\<close>

lemma normalize_Some:
  assumes "v \<noteq> (0, 0, 0)"
  shows "\<exists>u. normalize v = Some u \<and> dot u u = 1
           \<and> u = (fst v / sqrt (dot v v), fst (snd v) / sqrt (dot v v), snd (snd v) / sqrt (dot v v))
           \<and> 0 < sqrt (dot v v)"
proof -
  obtain v0 v1 v2 where v: "v = (v0, v1, v2)" by (cases v) auto
  let ?q = "v0 * v0 + v1 * v1 + v2 * v2"
  have nz: "v0 \<noteq> 0 \<or> v1 \<noteq> 0 \<or> v2 \<noteq> 0" using assms v by simp
  have q0: "0 \<le> ?q" by simp
  have qpos: "0 < ?q"
  proof -
    have "?q \<noteq> 0"
    proof
      assume "?q = 0"
      then have "v0 * v0 = 0 \<and> v1 * v1 = 0 \<and> v2 * v2 = 0"
        by (smt (verit) zero_le_square)
      then show False using nz by simp
    qed
    then show ?thesis using q0 by linarith
  qed
  then have lpos: "0 < sqrt ?q" by simp
  have n: "normalize v = Some (v0 / sqrt ?q, v1 / sqrt ?q, v2 / sqrt ?q)"
    unfolding v using lpos by (simp add: Let_def)
  have "v0 * v0 / ?q + v1 * v1 / ?q + v2 * v2 / ?q = ?q / ?q"
    by (simp only: add_divide_distrib)
  also have "\<dots> = 1" using qpos by simp
  finally have "v0 * v0 / ?q + v1 * v1 / ?q + v2 * v2 / ?q = 1" .
  then have u1: "dot (v0 / sqrt ?q, v1 / sqrt ?q, v2 / sqrt ?q) (v0 / sqrt ?q, v1 / sqrt ?q, v2 / sqrt ?q) = 1"
    using q0 by simp
  show ?thesis using n u1 lpos unfolding v by simp
qed

lemma normalize_None: "normalize v = None \<longleftrightarrow> v = (0, 0, 0)"
proof
  assume "normalize v = None"
  then show "v = (0, 0, 0)" using normalize_Some[of v] by auto
next
  assume "v = (0, 0, 0)"
  then show "normalize v = None" by simp
qed

lemma subtractVectors_zero: "subtractVectors a b = (0, 0, 0) \<longleftrightarrow> a = b"
  by (cases a; cases b) auto

lemma initialCamera_pose:
  "position initialCamera = (0, 1.6, 5) \<and> target initialCamera = (0, 0, 0)
   \<and> up initialCamera = (0, 1, 0)"
  by (simp add: initialCamera_def updateMatrices_def)

lemma addScaledDouble_sum:
  assumes "addScaledDouble v w delta = Some v'"
  shows "\<exists>s. stepVector w delta = Some s \<and> roundedSum v s = Some v'"
proof -
  obtain v0 v1 v2 where v: "v = (v0, v1, v2)" by (cases v) auto
  obtain w0 w1 w2 where w: "w = (w0, w1, w2)" by (cases w) auto
  from assms obtain p0 r0 p1 r1 p2 r2 where
    "mulDouble w0 delta = Some p0" "addDouble v0 p0 = Some r0"
    "mulDouble w1 delta = Some p1" "addDouble v1 p1 = Some r1"
    "mulDouble w2 delta = Some p2" "addDouble v2 p2 = Some r2" "v' = (r0, r1, r2)"
    unfolding v w by (auto simp: bind_eq_Some_conv)
  then show ?thesis unfolding v w by simp
qed

lemma roundedSum_components:
  assumes "roundedSum v w = Some v'" and "i < 3"
  shows "roundDouble (component v i + component w i) = Some (component v' i)"
proof -
  obtain v0 v1 v2 where v: "v = (v0, v1, v2)" by (cases v) auto
  obtain w0 w1 w2 where w: "w = (w0, w1, w2)" by (cases w) auto
  from assms(1) obtain r0 r1 r2 where
    r: "addDouble v0 w0 = Some r0" "addDouble v1 w1 = Some r1" "addDouble v2 w2 = Some r2"
    and v': "v' = (r0, r1, r2)"
    unfolding v w by (auto simp: bind_eq_Some_conv)
  have "i = 0 \<or> i = 1 \<or> i = 2" using assms(2) by linarith
  then show ?thesis using r unfolding v w v' by (auto simp: addDouble_def)
qed

lemma component_subtractVectors:
  "component (subtractVectors a b) i = component a i - component b i"
  by (cases a; cases b) simp

lemma component_eq:
  assumes "\<forall>i < 3. component a i = component b i"
  shows "a = b"
proof -
  obtain a0 a1 a2 where a: "a = (a0, a1, a2)" by (cases a) auto
  obtain b0 b1 b2 where b: "b = (b0, b1, b2)" by (cases b) auto
  have "component a 0 = component b 0" "component a 1 = component b 1"
    "component a 2 = component b 2" using assms by simp_all
  then show ?thesis unfolding a b by simp
qed

lemma movedBy_direction:
  assumes "movedBy w cam cam'"
  shows "directionKeptUpToRounding w cam cam'"
proof -
  have p: "roundedSum (position cam) w = Some (position cam')"
    and t: "roundedSum (target cam) w = Some (target cam')"
    using assms by (simp_all add: movedBy_def)
  have bound: "\<forall>i < 3. \<bar>component (viewDirection cam') i - component (viewDirection cam) i\<bar>
                \<le> halfUlp (component (position cam) i + component w i)
                  + halfUlp (component (target cam) i + component w i)"
  proof (intro allI impI)
    fix i :: nat assume i: "i < 3"
    have ep: "\<bar>component (position cam') i - (component (position cam) i + component w i)\<bar>
               \<le> halfUlp (component (position cam) i + component w i)"
      by (rule halfUlp_error[OF roundedSum_components[OF p i]])
    have et: "\<bar>component (target cam') i - (component (target cam) i + component w i)\<bar>
               \<le> halfUlp (component (target cam) i + component w i)"
      by (rule halfUlp_error[OF roundedSum_components[OF t i]])
    have "component (viewDirection cam') i - component (viewDirection cam) i
          = (component (target cam') i - (component (target cam) i + component w i))
            - (component (position cam') i - (component (position cam) i + component w i))"
      by (simp add: viewDirection_def component_subtractVectors)
    then show "\<bar>component (viewDirection cam') i - component (viewDirection cam) i\<bar>
                \<le> halfUlp (component (position cam) i + component w i)
                  + halfUlp (component (target cam) i + component w i)"
      using ep et by linarith
  qed
  have exact: "(\<forall>i < 3. component (position cam') i = component (position cam) i + component w i
                   \<and> component (target cam') i = component (target cam) i + component w i)
          \<longrightarrow> viewDirection cam' = viewDirection cam"
  proof
    assume e: "\<forall>i < 3. component (position cam') i = component (position cam) i + component w i
                   \<and> component (target cam') i = component (target cam) i + component w i"
    have "\<forall>i < 3. component (viewDirection cam') i = component (viewDirection cam) i"
      using e by (simp add: viewDirection_def component_subtractVectors)
    then show "viewDirection cam' = viewDirection cam" by (rule component_eq)
  qed
  show ?thesis unfolding directionKeptUpToRounding_def using bound exact by blast
qed

lemma moved_pose:
  assumes "addScaledDouble (position cam) d delta = Some p'"
    and "addScaledDouble (target cam) d delta = Some t'"
  shows "\<exists>w. stepVector d delta = Some w
           \<and> movedBy w cam (updateMatrices (cam\<lparr>position := p', target := t'\<rparr>))
           \<and> directionKeptUpToRounding w cam (updateMatrices (cam\<lparr>position := p', target := t'\<rparr>))"
proof -
  obtain w where w: "stepVector d delta = Some w" and sp: "roundedSum (position cam) w = Some p'"
    using addScaledDouble_sum[OF assms(1)] by blast
  obtain w' where w': "stepVector d delta = Some w'" and st: "roundedSum (target cam) w' = Some t'"
    using addScaledDouble_sum[OF assms(2)] by blast
  have "w' = w" using w w' by simp
  then have st': "roundedSum (target cam) w = Some t'" using st by simp
  have m: "movedBy w cam (updateMatrices (cam\<lparr>position := p', target := t'\<rparr>))"
    using sp st' by (simp add: movedBy_def updateMatrices_def)
  show ?thesis using w m movedBy_direction[OF m] by blast
qed

text \<open>
  C10 (amended). For every pose and every distance for which the arithmetic of the move
  stays within the finite doubles, \<open>moveForward\<close> and \<open>moveRight\<close> add one and the same
  vector to position and to target, the products of the distance with the components of
  the direction (of the right vector for \<open>moveRight\<close>), and leave \<open>up\<close> as it is. Each of
  the six sums is rounded to a double, so the view direction vector \<open>target - position\<close>
  is kept up to rounding only: each of its components changes by at most the rounding
  errors of the two sums it is the difference of, and it is unchanged when the six sums
  are exact.
\<close>

theorem move_adds_one_vector:
  "(\<forall>cam'. moveForward delta cam = Some cam' \<longrightarrow>
      (\<exists>d w. forwardDirection cam = Some d \<and> stepVector d delta = Some w
             \<and> movedBy w cam cam' \<and> directionKeptUpToRounding w cam cam'))
   \<and> (\<forall>cam'. moveRight delta cam = Some cam' \<longrightarrow>
      (\<exists>d w. rightDirection cam = Some d \<and> stepVector d delta = Some w
             \<and> movedBy w cam cam' \<and> directionKeptUpToRounding w cam cam'))"
proof (intro conjI allI impI)
  fix cam'
  assume "moveForward delta cam = Some cam'"
  then obtain f d p' t' where
    f: "subtractVectorsDouble (target cam) (position cam) = Some f"
    and d: "normalizeDouble f = Some d"
    and p: "addScaledDouble (position cam) d delta = Some p'"
    and t: "addScaledDouble (target cam) d delta = Some t'"
    and c: "cam' = updateMatrices (cam\<lparr>position := p', target := t'\<rparr>)"
    unfolding moveForward_def by (auto simp: bind_eq_Some_conv)
  have fd: "forwardDirection cam = Some d" unfolding forwardDirection_def using f d by simp
  show "\<exists>d w. forwardDirection cam = Some d \<and> stepVector d delta = Some w
             \<and> movedBy w cam cam' \<and> directionKeptUpToRounding w cam cam'"
    using fd moved_pose[OF p t] unfolding c by blast
next
  fix cam'
  assume "moveRight delta cam = Some cam'"
  then obtain f d r p' t' where
    f: "subtractVectorsDouble (target cam) (position cam) = Some f"
    and d: "normalizeDouble f = Some d"
    and r: "crossDouble d (up cam) = Some r"
    and p: "addScaledDouble (position cam) r delta = Some p'"
    and t: "addScaledDouble (target cam) r delta = Some t'"
    and c: "cam' = updateMatrices (cam\<lparr>position := p', target := t'\<rparr>)"
    unfolding moveRight_def by (auto simp: bind_eq_Some_conv)
  have rd: "rightDirection cam = Some r"
    unfolding rightDirection_def forwardDirection_def using f d r by simp
  show "\<exists>d w. rightDirection cam = Some d \<and> stepVector d delta = Some w
             \<and> movedBy w cam cam' \<and> directionKeptUpToRounding w cam cam'"
    using rd moved_pose[OF p t] unfolding c by blast
qed

lemma axisCamera_directions:
  "forwardDirection axisCamera = Some (0, 0, 1) \<and> rightDirection axisCamera = Some (- 1, 0, 0)"
  by (simp add: forwardDirection_def rightDirection_def axisCamera_def subDouble_def
      mulDouble_def addDouble_def divDouble_def sqrtDouble_def roundDouble_zero roundDouble_one
      roundDouble_minus_one)

lemma axisCamera_moves:
  "moveForward 2 axisCamera
     = Some (updateMatrices (axisCamera\<lparr>position := (0, 0, 2), target := (0, 0, 3)\<rparr>))
   \<and> moveRight 2 axisCamera
     = Some (updateMatrices (axisCamera\<lparr>position := (- 2, 0, 0), target := (- 2, 0, 1)\<rparr>))"
  by (simp add: moveForward_def moveRight_def axisCamera_def subDouble_def
      mulDouble_def addDouble_def divDouble_def sqrtDouble_def roundDouble_zero roundDouble_one
      roundDouble_minus_one roundDouble_numeral roundDouble_neg_numeral)

theorem move_adds_one_vector_witness:
  "moveForward 2 axisCamera
     = Some (updateMatrices (axisCamera\<lparr>position := (0, 0, 2), target := (0, 0, 3)\<rparr>))
   \<and> moveRight 2 axisCamera
     = Some (updateMatrices (axisCamera\<lparr>position := (- 2, 0, 0), target := (- 2, 0, 1)\<rparr>))
   \<and> movedBy (0, 0, 2) axisCamera
        (updateMatrices (axisCamera\<lparr>position := (0, 0, 2), target := (0, 0, 3)\<rparr>))
   \<and> movedBy (- 2, 0, 0) axisCamera
        (updateMatrices (axisCamera\<lparr>position := (- 2, 0, 0), target := (- 2, 0, 1)\<rparr>))
   \<and> viewDirection (updateMatrices (axisCamera\<lparr>position := (0, 0, 2), target := (0, 0, 3)\<rparr>))
       = viewDirection axisCamera
   \<and> viewDirection (updateMatrices (axisCamera\<lparr>position := (- 2, 0, 0), target := (- 2, 0, 1)\<rparr>))
       = viewDirection axisCamera"
proof -
  let ?f = "updateMatrices (axisCamera\<lparr>position := (0, 0, 2), target := (0, 0, 3)\<rparr>)"
  let ?r = "updateMatrices (axisCamera\<lparr>position := (- 2, 0, 0), target := (- 2, 0, 1)\<rparr>)"
  note t = move_adds_one_vector[of 2 axisCamera]
  have mf: "moveForward 2 axisCamera = Some ?f" and mr: "moveRight 2 axisCamera = Some ?r"
    using axisCamera_moves by simp_all
  have sf: "stepVector (0, 0, 1) 2 = Some (0, 0, 2)"
    by (simp add: mulDouble_def roundDouble_zero roundDouble_numeral)
  have sr: "stepVector (- 1, 0, 0) 2 = Some (- 2, 0, 0)"
    by (simp add: mulDouble_def roundDouble_zero roundDouble_neg_numeral)
  obtain d w where "forwardDirection axisCamera = Some d" "stepVector d 2 = Some w"
    and f1: "movedBy w axisCamera ?f" and f2: "directionKeptUpToRounding w axisCamera ?f"
    using t mf by blast
  then have wf: "w = (0, 0, 2)" using axisCamera_directions sf by simp
  obtain d' w' where "rightDirection axisCamera = Some d'" "stepVector d' 2 = Some w'"
    and r1: "movedBy w' axisCamera ?r" and r2: "directionKeptUpToRounding w' axisCamera ?r"
    using t mr by blast
  then have wr: "w' = (- 2, 0, 0)" using axisCamera_directions sr by simp
  have vf: "viewDirection ?f = viewDirection axisCamera"
    by (simp add: viewDirection_def updateMatrices_def axisCamera_def)
  have vr: "viewDirection ?r = viewDirection axisCamera"
    by (simp add: viewDirection_def updateMatrices_def axisCamera_def)
  show ?thesis using mf mr f1 r1 vf vr unfolding wf wr by simp
qed

text \<open>
  From position \<open>(0, 0, 0)\<close> and target \<open>(0, 0, 1)\<close>, \<open>moveForward(2^53)\<close> puts the position
  at \<open>(0, 0, 2^53)\<close>; the sum \<open>1 + 2^53\<close> for the target is not a double and rounds to
  \<open>2^53\<close> as well. The view direction \<open>(0, 0, 1)\<close> has become \<open>(0, 0, 0)\<close>, and the view
  matrix computed from the new pose holds \<open>NaN\<close>.
\<close>

theorem move_collapses_direction_counterexample:
  "viewDirection axisCamera = (0, 0, 1)
   \<and> map_option position (moveForward 9007199254740992 axisCamera)
       = Some (0, 0, 9007199254740992)
   \<and> map_option target (moveForward 9007199254740992 axisCamera)
       = Some (0, 0, 9007199254740992)
   \<and> map_option viewDirection (moveForward 9007199254740992 axisCamera) = Some (0, 0, 0)
   \<and> map_option viewMatrix (moveForward 9007199254740992 axisCamera) = Some None"
proof -
  have m: "moveForward 9007199254740992 axisCamera
     = Some (updateMatrices (axisCamera\<lparr>position := (0, 0, 9007199254740992),
                                         target := (0, 0, 9007199254740992)\<rparr>))"
    by (simp add: moveForward_def axisCamera_def subDouble_def
        mulDouble_def addDouble_def divDouble_def sqrtDouble_def roundDouble_zero roundDouble_one
        roundDouble_two_53 roundDouble_tie)
  show ?thesis
    unfolding m
    by (simp add: viewDirection_def updateMatrices_def updateViewMatrix_def axisCamera_def)
qed

lemma dot_cross_first: "dot (cross a b) a = 0"
  by (cases a; cases b) (simp add: algebra_simps)

lemma dot_cross_second: "dot (cross a b) b = 0"
  by (cases a; cases b) (simp add: algebra_simps)

lemma dot_commute: "dot a b = dot b a"
  by (cases a; cases b) (simp add: algebra_simps)

lemma lagrange_identity: "dot (cross a b) (cross a b) = dot a a * dot b b - dot a b * dot a b"
  by (cases a; cases b) (simp add: algebra_simps)

lemma dot_scale_left: "dot (a0 / l, a1 / l, a2 / l) b = dot (a0, a1, a2) b / l"
  by (cases b) (simp add: add_divide_distrib)

lemma cross_scale_right:
  "cross a (b0 / l, b1 / l, b2 / l) =
     (fst (cross a (b0, b1, b2)) / l, fst (snd (cross a (b0, b1, b2))) / l,
      snd (snd (cross a (b0, b1, b2))) / l)"
  by (cases a) (simp add: diff_divide_distrib)

lemma scaled_zero:
  assumes "l \<noteq> 0"
  shows "(fst c / l, fst (snd c) / l, snd (snd c) / l) = (0, 0, 0) \<longleftrightarrow> c = ((0, 0, 0) :: vec3)"
  using assms by (cases c) simp

lemma view_basis:
  assumes "target cam \<noteq> position cam"
    and "cross (up cam) (subtractVectors (target cam) (position cam)) \<noteq> (0, 0, 0)"
  shows "\<exists>x y z. normalize (subtractVectors (target cam) (position cam)) = Some z
          \<and> normalize (cross (up cam) z) = Some x \<and> y = cross z x
          \<and> updateViewMatrix cam =
              Some [fst x, fst y, fst z, 0,
                    fst (snd x), fst (snd y), fst (snd z), 0,
                    snd (snd x), snd (snd y), snd (snd z), 0,
                    - dot x (position cam), - dot y (position cam), - dot z (position cam), 1]
          \<and> dot x x = 1 \<and> dot y y = 1 \<and> dot z z = 1
          \<and> dot x y = 0 \<and> dot y z = 0 \<and> dot x z = 0"
proof -
  let ?f = "subtractVectors (target cam) (position cam)"
  have fn: "?f \<noteq> (0, 0, 0)" using assms(1) by (simp add: subtractVectors_zero)
  obtain z where z: "normalize ?f = Some z" and zz: "dot z z = 1"
    and zf: "z = (fst ?f / sqrt (dot ?f ?f), fst (snd ?f) / sqrt (dot ?f ?f), snd (snd ?f) / sqrt (dot ?f ?f))"
    and lpos: "0 < sqrt (dot ?f ?f)"
    using normalize_Some[OF fn] by blast
  have "cross (up cam) z =
      (fst (cross (up cam) ?f) / sqrt (dot ?f ?f), fst (snd (cross (up cam) ?f)) / sqrt (dot ?f ?f),
       snd (snd (cross (up cam) ?f)) / sqrt (dot ?f ?f))"
    by (subst zf, subst cross_scale_right) simp
  then have wn: "cross (up cam) z \<noteq> (0, 0, 0)"
    using assms(2) lpos scaled_zero[of "sqrt (dot ?f ?f)" "cross (up cam) ?f"] by simp
  let ?w = "cross (up cam) z"
  obtain x where x: "normalize ?w = Some x" and xx: "dot x x = 1"
    and xw: "x = (fst ?w / sqrt (dot ?w ?w), fst (snd ?w) / sqrt (dot ?w ?w), snd (snd ?w) / sqrt (dot ?w ?w))"
    using normalize_Some[OF wn] by blast
  have "dot x z = dot (fst ?w, fst (snd ?w), snd (snd ?w)) z / sqrt (dot ?w ?w)"
    by (subst xw) (rule dot_scale_left)
  also have "\<dots> = 0" using dot_cross_second[of "up cam" z] by simp
  finally have xz: "dot x z = 0" .
  let ?y = "cross z x"
  have yz: "dot ?y z = 0" by (rule dot_cross_first)
  have yx: "dot ?y x = 0" by (rule dot_cross_second)
  have xy: "dot x ?y = 0" using yx by (simp add: dot_commute)
  have zx: "dot z x = 0" using xz by (simp add: dot_commute)
  have yy: "dot ?y ?y = 1" unfolding lagrange_identity zz xx zx by simp
  have m: "updateViewMatrix cam =
              Some [fst x, fst ?y, fst z, 0,
                    fst (snd x), fst (snd ?y), fst (snd z), 0,
                    snd (snd x), snd (snd ?y), snd (snd z), 0,
                    - dot x (position cam), - dot ?y (position cam), - dot z (position cam), 1]"
    unfolding updateViewMatrix_def z by (simp add: x Let_def split: prod.splits)
  show ?thesis using z x m xx yy zz xy yz xz by blast
qed

lemma view_degenerate:
  assumes "target cam = position cam
           \<or> cross (up cam) (subtractVectors (target cam) (position cam)) = (0, 0, 0)"
  shows "updateViewMatrix cam = None"
proof (cases "target cam = position cam")
  case True
  then have "normalize (subtractVectors (target cam) (position cam)) = None"
    by (simp add: normalize_None subtractVectors_zero)
  then show ?thesis by (simp add: updateViewMatrix_def)
next
  case False
  let ?f = "subtractVectors (target cam) (position cam)"
  have c0: "cross (up cam) ?f = (0, 0, 0)" using assms False by simp
  have fn: "?f \<noteq> (0, 0, 0)" using False by (simp add: subtractVectors_zero)
  obtain z where z: "normalize ?f = Some z"
    and zf: "z = (fst ?f / sqrt (dot ?f ?f), fst (snd ?f) / sqrt (dot ?f ?f), snd (snd ?f) / sqrt (dot ?f ?f))"
    using normalize_Some[OF fn] by blast
  have "cross (up cam) z =
      (fst (cross (up cam) ?f) / sqrt (dot ?f ?f), fst (snd (cross (up cam) ?f)) / sqrt (dot ?f ?f),
       snd (snd (cross (up cam) ?f)) / sqrt (dot ?f ?f))"
    by (subst zf, subst cross_scale_right) simp
  then have "cross (up cam) z = (0, 0, 0)" unfolding c0 by simp
  then have "normalize (cross (up cam) z) = None" by (simp add: normalize_None)
  then show ?thesis unfolding updateViewMatrix_def z by simp
qed

text \<open>
  C6 (amended). For every camera pose whose target differs from its position and whose
  forward direction is not parallel to \<open>up\<close>, the view matrix is built from the
  orthonormal basis \<open>forward = normalize(target - position)\<close>,
  \<open>right = normalize(cross(up, forward))\<close>, \<open>recomputedUp = cross(forward, right)\<close>. In
  the degenerate case (forward parallel to \<open>up\<close>, or target equal to position) there is
  no fallback: the view matrix is overwritten with \<open>NaN\<close> entries.
\<close>

theorem view_matrix_basis:
  "(target cam \<noteq> position cam
      \<and> cross (up cam) (subtractVectors (target cam) (position cam)) \<noteq> (0, 0, 0) \<longrightarrow>
      (\<exists>x y z. normalize (subtractVectors (target cam) (position cam)) = Some z
          \<and> normalize (cross (up cam) z) = Some x \<and> y = cross z x
          \<and> updateViewMatrix cam =
              Some [fst x, fst y, fst z, 0,
                    fst (snd x), fst (snd y), fst (snd z), 0,
                    snd (snd x), snd (snd y), snd (snd z), 0,
                    - dot x (position cam), - dot y (position cam), - dot z (position cam), 1]
          \<and> dot x x = 1 \<and> dot y y = 1 \<and> dot z z = 1
          \<and> dot x y = 0 \<and> dot y z = 0 \<and> dot x z = 0))
   \<and> (target cam = position cam
        \<or> cross (up cam) (subtractVectors (target cam) (position cam)) = (0, 0, 0) \<longrightarrow>
        updateViewMatrix cam = None \<and> viewMatrix (updateMatrices cam) = None)"
  using view_basis[of cam] view_degenerate[of cam] by (simp add: updateMatrices_def)

lemma initialCamera_regular:
  "target initialCamera \<noteq> position initialCamera
   \<and> cross (up initialCamera) (subtractVectors (target initialCamera) (position initialCamera))
       \<noteq> (0, 0, 0)"
  by (simp add: initialCamera_pose)

lemma lookingUp_degenerate:
  "cross (up lookingUp) (subtractVectors (target lookingUp) (position lookingUp)) = (0, 0, 0)"
  by (simp add: lookingUp_def initialCamera_pose)

theorem view_matrix_basis_witness:
  "target initialCamera \<noteq> position initialCamera
   \<and> cross (up initialCamera) (subtractVectors (target initialCamera) (position initialCamera))
       \<noteq> (0, 0, 0)
   \<and> (\<exists>m. updateViewMatrix initialCamera = Some m \<and> length m = 16)
   \<and> cross (up lookingUp) (subtractVectors (target lookingUp) (position lookingUp)) = (0, 0, 0)
   \<and> updateViewMatrix lookingUp = None"
proof -
  note r = initialCamera_regular
  note d = lookingUp_degenerate
  have a: "\<exists>m. updateViewMatrix initialCamera = Some m \<and> length m = 16"
    using r view_matrix_basis[of initialCamera] by auto
  have b: "updateViewMatrix lookingUp = None"
    using d view_matrix_basis[of lookingUp] by simp
  show ?thesis using r d a b by simp
qed

text \<open>
  The camera looking straight up still carries the valid matrix of the initial pose;
  the next update replaces it by \<open>NaN\<close> entries instead of keeping it.
\<close>

theorem view_matrix_no_fallback_counterexample:
  "viewMatrix lookingUp \<noteq> None \<and> viewMatrix (updateMatrices lookingUp) = None"
proof -
  let ?c = "\<lparr>position = (0, 1.6, 5), target = (0, 0, 0), up = (0, 1, 0),
        viewMatrix = Some (replicate 16 0), time = 0\<rparr>"
  have "target ?c \<noteq> position ?c
      \<and> cross (up ?c) (subtractVectors (target ?c) (position ?c)) \<noteq> (0, 0, 0)"
    by simp
  then have "updateViewMatrix ?c \<noteq> None" using view_basis[of ?c] by auto
  then have a: "viewMatrix lookingUp \<noteq> None"
    by (simp add: lookingUp_def initialCamera_def updateMatrices_def)
  have "updateViewMatrix lookingUp = None"
    using view_degenerate[of lookingUp] lookingUp_degenerate by simp
  then have b: "viewMatrix (updateMatrices lookingUp) = None"
    by (simp add: updateMatrices_def)
  show ?thesis using a b by simp
qed

lemma arcsin_sqrt3_half: "arcsin (sqrt 3 / 2) = pi / 3"
proof -
  have a: "- (pi / 2) \<le> pi / 3" using pi_gt_zero by linarith
  have b: "pi / 3 \<le> pi / 2" using pi_gt_zero by linarith
  have "arcsin (sin (pi / 3)) = pi / 3" by (rule arcsin_sin[OF a b])
  then show ?thesis by (simp add: sin_60)
qed

lemma arcsin_12_13_lower: "pi / 3 < arcsin (12 / 13)"
proof -
  have "sqrt 3 < 24 / 13" by (rule real_less_lsqrt) (simp_all add: power2_eq_square)
  then have lt: "sqrt 3 / 2 < 12 / (13::real)" by simp
  have "0 \<le> sqrt 3" by simp
  then have lo: "- 1 \<le> sqrt 3 / 2" by linarith
  have "arcsin (sqrt 3 / 2) < arcsin (12 / 13)"
    by (rule arcsin_less_arcsin[OF lo lt]) simp
  then show ?thesis by (simp add: arcsin_sqrt3_half)
qed

lemma arcsin_12_13_upper: "arcsin (12 / 13) < 85 * pi / 180"
proof (rule ccontr)
  assume "\<not> arcsin (12 / 13) < 85 * pi / 180"
  then have ge: "85 * pi / 180 \<le> arcsin (12 / 13)" by simp
  have "arcsin (12 / 13) \<le> pi / 2" by (rule arcsin_ubound) simp_all
  then have ub: "arcsin (12 / 13) \<le> pi" using pi_gt_zero by linarith
  have "cos (arcsin (12 / 13)) \<le> cos (85 * pi / 180)"
  proof -
    have "0 \<le> 85 * pi / 180" using pi_gt_zero by simp
    then show ?thesis by (rule cos_monotone_0_pi_le[OF _ ge ub])
  qed
  moreover have "cos (85 * pi / 180) = sin (pi / 36)"
  proof -
    have "85 * pi / 180 = pi / 2 - pi / 36" by simp
    then show ?thesis by (simp only: cos_diff) simp
  qed
  moreover have "sin (pi / 36) \<le> pi / 36"
  proof -
    have "0 \<le> pi / 36" using pi_gt_zero by simp
    then show ?thesis by (rule sin_x_le_x)
  qed
  moreover have "pi / 36 < 5 / 13" using pi_less_4 by linarith
  moreover have "cos (arcsin (12 / 13)) = 5 / 13"
  proof -
    have "cos (arcsin (12 / 13)) = sqrt (1 - (12 / 13)\<^sup>2)" by (rule cos_arcsin) simp_all
    also have "1 - (12 / 13 :: real)\<^sup>2 = (5 / 13)\<^sup>2" by (simp add: power2_eq_square)
    also have "sqrt ((5 / 13 :: real)\<^sup>2) = 5 / 13" by simp
    finally show ?thesis .
  qed
  ultimately show False by linarith
qed

lemma tilted_direction:
  "normalize (subtractVectors (target tiltedCamera) (position tiltedCamera))
     = Some (0, 12 / 13, 5 / 13)"
  by (simp add: tiltedCamera_def Let_def)

lemma steep_condition:
  "\<bar>arcsin (12 / 13) + (arctan (13 / 12) - pi)\<bar> < 85 * pi / 180"
proof -
  have a1: "pi / 3 < arcsin (12 / 13)" by (rule arcsin_12_13_lower)
  have a2: "arcsin (12 / 13) \<le> pi / 2" by (rule arcsin_ubound) simp_all
  have "arctan 1 < arctan (13 / 12)" by (rule arctan_monotone) simp
  then have b1: "pi / 4 < arctan (13 / 12)" by (simp add: arctan_one)
  have b2: "arctan (13 / 12) < pi / 2" by (rule arctan_ubound)
  show ?thesis using a1 a2 b1 b2 pi_gt_zero by linarith
qed

lemma steep_rotation:
  "rotateCamera 0 (arctan (13 / 12) - pi) tiltedCamera =
     Some (updateMatrices (tiltedCamera\<lparr>target := (0, - 5, 0)\<rparr>))"
proof -
  let ?c = "cos (arctan (13 / 12))"
  have cpos: "0 < ?c"
    by (rule cos_gt_zero_pi) (use arctan_bounded in auto)
  have sn: "sin (arctan (13 / 12)) = 13 / 12 * ?c"
    using tan_arctan[of "13 / 12"] cpos by (simp add: tan_def field_simps)
  have pc: "cos (arctan (13 / 12) - pi) = - ?c" by simp
  have ps: "sin (arctan (13 / 12) - pi) = - (13 / 12 * ?c)" by (simp add: sn)
  have "169 * (?c * ?c) / 144 = (13 * ?c / 12)\<^sup>2" by (simp add: power2_eq_square)
  then have "sqrt (169 * (?c * ?c) / 144) = \<bar>13 * ?c / 12\<bar>" by (simp only: real_sqrt_abs)
  then have sq: "sqrt (169 * (?c * ?c) / 144) = 13 * ?c / 12" using cpos by simp
  have pos: "position tiltedCamera = (0, 0, 0)" by (simp add: tiltedCamera_def)
  have upv: "up tiltedCamera = (0, 1, 0)" by (simp add: tiltedCamera_def)
  show ?thesis
    unfolding rotateCamera_def tilted_direction Let_def
    using steep_condition
    using cpos by (simp add: pos upv pc ps sq del: cos_minus_pi sin_minus_pi)
qed

lemma rotate_keeps_pose:
  "position (rotate yaw pitch cam) = position cam \<and> target (rotate yaw pitch cam) = target cam
   \<and> up (rotate yaw pitch cam) = up cam"
  by (simp add: rotate_def updateMatrices_def)

lemma sqrt_25: "sqrt 25 = 5"
  by (rule real_sqrt_unique) simp_all

text \<open>
  C8, at the failing input. The camera at the origin looks at \<open>(0, 12/13, 5/13)\<close>, a
  pitch of about 67 degrees, inside the limit. One call
  \<open>rotateCamera(0, arctan(13/12) - pi)\<close>, a pitch step of about -133 degrees, passes the
  limit test (the sum is about -65 degrees) and leaves the camera looking straight down:
  the pitch is -90 degrees, beyond the limit of 85, and the view matrix is \<open>NaN\<close>.
\<close>

theorem rotate_exceeds_pitch_limit:
  "viewPitch tiltedCamera = Some (arcsin (12 / 13))
   \<and> \<bar>arcsin (12 / 13)\<bar> \<le> 85 * pi / 180
   \<and> (\<exists>cam'. rotateCamera 0 (arctan (13 / 12) - pi) tiltedCamera = Some cam'
          \<and> position cam' = (0, 0, 0) \<and> target cam' = (0, - 5, 0)
          \<and> viewPitch cam' = Some (- (pi / 2))
          \<and> \<not> \<bar>- (pi / 2)\<bar> \<le> 85 * pi / 180
          \<and> viewMatrix cam' = None)"
proof -
  have p0: "viewPitch tiltedCamera = Some (arcsin (12 / 13))"
    unfolding viewPitch_def tilted_direction by simp
  have "0 \<le> arcsin (12 / 13)" using arcsin_12_13_lower pi_gt_zero by linarith
  then have p1: "\<bar>arcsin (12 / 13)\<bar> \<le> 85 * pi / 180" using arcsin_12_13_upper by linarith
  let ?cam = "updateMatrices (tiltedCamera\<lparr>target := (0, - 5, 0)\<rparr>)"
  have r: "rotateCamera 0 (arctan (13 / 12) - pi) tiltedCamera = Some ?cam"
    by (rule steep_rotation)
  have pos: "position ?cam = (0, 0, 0)" by (simp add: updateMatrices_def tiltedCamera_def)
  have tgt: "target ?cam = (0, - 5, 0)" by (simp add: updateMatrices_def)
  have upv: "up (tiltedCamera\<lparr>target := (0, - 5, 0)\<rparr>) = (0, 1, 0)" by (simp add: tiltedCamera_def)
  have vp: "viewPitch ?cam = Some (- (pi / 2))"
    unfolding viewPitch_def pos tgt by (simp add: Let_def sqrt_25)
  have lim: "\<not> \<bar>- (pi / 2)\<bar> \<le> 85 * pi / 180" using pi_gt_zero by simp
  have "cross (up (tiltedCamera\<lparr>target := (0, - 5, 0)\<rparr>))
          (subtractVectors (target (tiltedCamera\<lparr>target := (0, - 5, 0)\<rparr>))
             (position (tiltedCamera\<lparr>target := (0, - 5, 0)\<rparr>))) = (0, 0, 0)"
    by (simp add: tiltedCamera_def)
  then have "updateViewMatrix (tiltedCamera\<lparr>target := (0, - 5, 0)\<rparr>) = None"
    using view_degenerate by blast
  then have vm: "viewMatrix ?cam = None" by (simp add: updateMatrices_def)
  show ?thesis using p0 p1 r pos tgt vp lim vm by blast
qed

section \<open>Ray casting\<close>

lemma rayCastLoop_step:
  assumes "calculatePosition dp rnd k cube i = (p, k')"
    and "(closestHit = None \<and> closestDistance = None)
         \<or> (\<exists>h. closestHit = Some h \<and> closestDistance = Some (distance h))"
  shows "rayCastLoop dp rnd origin direction i (cube # cubes) k closestHit closestDistance =
     (case acceptedDistance origin direction p of
        None \<Rightarrow> rayCastLoop dp rnd origin direction (Suc i) cubes k' closestHit closestDistance
      | Some t \<Rightarrow>
          if (case closestHit of None \<Rightarrow> True | Some h \<Rightarrow> t < distance h)
          then rayCastLoop dp rnd origin direction (Suc i) cubes k'
                 (Some \<lparr>index = i, pmid = PMID cube, article = cube, distance = t\<rparr>) (Some t)
          else rayCastLoop dp rnd origin direction (Suc i) cubes k' closestHit closestDistance)"
proof (cases p)
  case None
  then show ?thesis using assms(1) by (simp add: acceptedDistance_def)
next
  case (Some c)
  obtain p0 p1 p2 where c: "c = (p0, p1, p2)" by (cases c) auto
  obtain o0 o1 o2 where o: "origin = (o0, o1, o2)" by (cases origin) auto
  obtain d0 d1 d2 where d: "direction = (d0, d1, d2)" by (cases direction) auto
  show ?thesis
    using assms unfolding Some c o d
    by (auto simp: acceptedDistance_def smallerRoot_def Let_def)
qed

lemma rayCastLoop_nearest:
  assumes "(closestHit = None \<and> closestDistance = None)
         \<or> (\<exists>h. closestHit = Some h \<and> closestDistance = Some (distance h))"
  shows "rayCastLoop dp rnd origin direction i cubes k closestHit closestDistance =
     (nearestFrom i
        (zip cubes (map (acceptedDistance origin direction) (loopCentres dp rnd k i cubes)))
        closestHit,
      k + drawsPerPosition dp * length cubes)"
  using assms
proof (induction cubes arbitrary: i k closestHit closestDistance)
  case Nil
  then show ?case by simp
next
  case (Cons cube cubes)
  obtain p k' where c: "calculatePosition dp rnd k cube i = (p, k')"
    by (cases "calculatePosition dp rnd k cube i")
  have k': "k' = k + drawsPerPosition dp"
    using snd_calculatePosition[of dp rnd k cube i] c by simp
  have p: "fst (calculatePosition dp rnd k cube i) = p" using c by simp
  note st = rayCastLoop_step[OF c Cons.prems, of origin direction cubes]
  show ?case
  proof (cases "acceptedDistance origin direction p")
    case None
    show ?thesis
      unfolding st None using Cons.IH[OF Cons.prems, of "Suc i" k'] None p k' by simp
  next
    case (Some t)
    show ?thesis
    proof (cases "case closestHit of None \<Rightarrow> True | Some h \<Rightarrow> t < distance h")
      case True
      let ?h = "\<lparr>index = i, pmid = PMID cube, article = cube, distance = t\<rparr>"
      have sync: "(Some ?h = None \<and> Some t = None)
         \<or> (\<exists>h. Some ?h = Some h \<and> Some t = Some (distance h))" by simp
      show ?thesis
        unfolding st Some using Cons.IH[OF sync, of "Suc i" k'] Some True p k' by simp
    next
      case False
      show ?thesis
        unfolding st Some using Cons.IH[OF Cons.prems, of "Suc i" k'] Some False p k' by simp
    qed
  qed
qed

lemma loopCentres_length: "length (loopCentres dp rnd k i cubes) = length cubes"
  by (induction cubes arbitrary: k i) simp_all

lemma loopCentres_nth:
  "j < length cubes \<Longrightarrow>
     loopCentres dp rnd k i cubes ! j
       = fst (calculatePosition dp rnd (k + drawsPerPosition dp * j) (cubes ! j) (i + j))"
proof (induction cubes arbitrary: k i j)
  case Nil
  then show ?case by simp
next
  case (Cons cube cubes)
  show ?case
  proof (cases j)
    case 0
    then show ?thesis by simp
  next
    case (Suc j')
    then have "j' < length cubes" using Cons.prems by simp
    then show ?thesis using Cons.IH[of j' "k + drawsPerPosition dp" "Suc i"] Suc
      by (simp add: algebra_simps)
  qed
qed

lemma nearestFrom_None:
  "nearestFrom i xs closestHit = None \<longleftrightarrow> closestHit = None \<and> (\<forall>x \<in> set xs. snd x = None)"
proof (induction i xs closestHit rule: nearestFrom.induct)
  case (1 i closestHit)
  then show ?case by simp
next
  case (2 i cube rest closestHit)
  then show ?case by simp
next
  case (3 i cube t rest closestHit)
  then show ?case by (auto split: option.splits)
qed

lemma nearestFrom_origin:
  "nearestFrom i xs closestHit = Some h \<Longrightarrow>
     closestHit = Some h
     \<or> (\<exists>j < length xs. index h = i + j \<and> snd (xs ! j) = Some (distance h)
           \<and> article h = fst (xs ! j) \<and> pmid h = PMID (fst (xs ! j)))"
proof (induction i xs closestHit rule: nearestFrom.induct)
  case (1 i closestHit)
  then show ?case by simp
next
  case (2 i cube rest closestHit)
  from 2 have "closestHit = Some h
     \<or> (\<exists>j < length rest. index h = Suc i + j \<and> snd (rest ! j) = Some (distance h)
           \<and> article h = fst (rest ! j) \<and> pmid h = PMID (fst (rest ! j)))" by simp
  then show ?case
  proof
    assume "closestHit = Some h" then show ?thesis by simp
  next
    assume "\<exists>j < length rest. index h = Suc i + j \<and> snd (rest ! j) = Some (distance h)
           \<and> article h = fst (rest ! j) \<and> pmid h = PMID (fst (rest ! j))"
    then obtain j where j: "j < length rest" "index h = Suc i + j"
       "snd (rest ! j) = Some (distance h)" "article h = fst (rest ! j)"
       "pmid h = PMID (fst (rest ! j))" by blast
    have "Suc j < length ((cube, None) # rest) \<and> index h = i + Suc j
        \<and> snd (((cube, None) # rest) ! Suc j) = Some (distance h)
        \<and> article h = fst (((cube, None) # rest) ! Suc j)
        \<and> pmid h = PMID (fst (((cube, None) # rest) ! Suc j))"
      using j by simp
    then show ?thesis by blast
  qed
next
  case (3 i cube t rest closestHit)
  let ?new = "\<lparr>index = i, pmid = PMID cube, article = cube, distance = t\<rparr>"
  let ?xs = "(cube, Some t) # rest"
  have shift: "\<And>j. j < length rest \<Longrightarrow> index h = Suc i + j \<Longrightarrow>
       snd (rest ! j) = Some (distance h) \<Longrightarrow> article h = fst (rest ! j) \<Longrightarrow>
       pmid h = PMID (fst (rest ! j)) \<Longrightarrow>
       \<exists>j < length ?xs. index h = i + j \<and> snd (?xs ! j) = Some (distance h)
           \<and> article h = fst (?xs ! j) \<and> pmid h = PMID (fst (?xs ! j))"
  proof -
    fix j assume j: "j < length rest" "index h = Suc i + j"
       "snd (rest ! j) = Some (distance h)" "article h = fst (rest ! j)"
       "pmid h = PMID (fst (rest ! j))"
    have "Suc j < length ?xs \<and> index h = i + Suc j
        \<and> snd (?xs ! Suc j) = Some (distance h)
        \<and> article h = fst (?xs ! Suc j) \<and> pmid h = PMID (fst (?xs ! Suc j))"
      using j by simp
    then show "\<exists>j < length ?xs. index h = i + j \<and> snd (?xs ! j) = Some (distance h)
           \<and> article h = fst (?xs ! j) \<and> pmid h = PMID (fst (?xs ! j))" by blast
  qed
  show ?case
  proof (cases "case closestHit of None \<Rightarrow> True | Some h \<Rightarrow> t < distance h")
    case True
    then have r: "nearestFrom (Suc i) rest (Some ?new) = Some h" using 3(3) by simp
    from 3(1)[OF True r] show ?thesis
    proof
      assume "Some ?new = Some h"
      then have "0 < length ?xs \<and> index h = i + 0 \<and> snd (?xs ! 0) = Some (distance h)
           \<and> article h = fst (?xs ! 0) \<and> pmid h = PMID (fst (?xs ! 0))" by auto
      then show ?thesis by blast
    next
      assume "\<exists>j < length rest. index h = Suc i + j \<and> snd (rest ! j) = Some (distance h)
           \<and> article h = fst (rest ! j) \<and> pmid h = PMID (fst (rest ! j))"
      then show ?thesis using shift by blast
    qed
  next
    case False
    then have r: "nearestFrom (Suc i) rest closestHit = Some h" using 3(3) by simp
    from 3(2)[OF False r] show ?thesis using shift by blast
  qed
qed

lemma nth_Cons_all:
  "(\<forall>j < length (x # xs). P j ((x # xs) ! j)) \<longleftrightarrow> P 0 x \<and> (\<forall>j < length xs. P (Suc j) (xs ! j))"
proof
  assume a: "\<forall>j < length (x # xs). P j ((x # xs) ! j)"
  have "P 0 x" using a by auto
  moreover have "\<forall>j < length xs. P (Suc j) (xs ! j)"
  proof (intro allI impI)
    fix j assume "j < length xs"
    then have "Suc j < length (x # xs)" by simp
    then have "P (Suc j) ((x # xs) ! Suc j)" using a by blast
    then show "P (Suc j) (xs ! j)" by simp
  qed
  ultimately show "P 0 x \<and> (\<forall>j < length xs. P (Suc j) (xs ! j))" by simp
next
  assume a: "P 0 x \<and> (\<forall>j < length xs. P (Suc j) (xs ! j))"
  show "\<forall>j < length (x # xs). P j ((x # xs) ! j)"
  proof (intro allI impI)
    fix j assume j: "j < length (x # xs)"
    show "P j ((x # xs) ! j)"
    proof (cases j)
      case 0
      then show ?thesis using a by simp
    next
      case (Suc j')
      then show ?thesis using a j by simp
    qed
  qed
qed

lemma nearestFrom_least:
  "nearestFrom i xs closestHit = Some h \<Longrightarrow>
     (\<forall>h0. closestHit = Some h0 \<longrightarrow> distance h \<le> distance h0)
     \<and> (\<forall>j < length xs. \<forall>t. snd (xs ! j) = Some t \<longrightarrow> distance h \<le> t)"
proof (induction i xs closestHit rule: nearestFrom.induct)
  case (1 i closestHit)
  then show ?case by simp
next
  case (2 i cube rest closestHit)
  then have ih: "(\<forall>h0. closestHit = Some h0 \<longrightarrow> distance h \<le> distance h0)
     \<and> (\<forall>j < length rest. \<forall>t. snd (rest ! j) = Some t \<longrightarrow> distance h \<le> t)" by simp
  show ?case
    unfolding nth_Cons_all[of "(cube, None)" rest "\<lambda>j x. \<forall>t. snd x = Some t \<longrightarrow> distance h \<le> t"]
    using ih by simp
next
  case (3 i cube t rest closestHit)
  let ?new = "\<lparr>index = i, pmid = PMID cube, article = cube, distance = t\<rparr>"
  show ?case
  proof (cases "case closestHit of None \<Rightarrow> True | Some h \<Rightarrow> t < distance h")
    case True
    then have r: "nearestFrom (Suc i) rest (Some ?new) = Some h" using 3(3) by simp
    from 3(1)[OF True r] have ih: "distance h \<le> t
      \<and> (\<forall>j < length rest. \<forall>t. snd (rest ! j) = Some t \<longrightarrow> distance h \<le> t)" by simp
    have c: "\<forall>h0. closestHit = Some h0 \<longrightarrow> distance h \<le> distance h0"
      using True ih by (auto split: option.splits)
    show ?thesis
      unfolding nth_Cons_all[of "(cube, Some t)" rest "\<lambda>j x. \<forall>t. snd x = Some t \<longrightarrow> distance h \<le> t"]
      using ih c by simp
  next
    case False
    then have r: "nearestFrom (Suc i) rest closestHit = Some h" using 3(3) by simp
    from 3(2)[OF False r] have ih: "(\<forall>h0. closestHit = Some h0 \<longrightarrow> distance h \<le> distance h0)
     \<and> (\<forall>j < length rest. \<forall>t. snd (rest ! j) = Some t \<longrightarrow> distance h \<le> t)" .
    obtain h0 where h0: "closestHit = Some h0" "\<not> t < distance h0"
      using False by (cases closestHit) auto
    have "distance h \<le> distance h0" using ih h0 by simp
    then have "distance h \<le> t" using h0 by simp
    then show ?thesis
      unfolding nth_Cons_all[of "(cube, Some t)" rest "\<lambda>j x. \<forall>t. snd x = Some t \<longrightarrow> distance h \<le> t"]
      using ih by simp
  qed
qed

lemma nearestFrom_first:
  "nearestFrom i xs closestHit = Some h \<Longrightarrow>
   (\<forall>h0. closestHit = Some h0 \<longrightarrow> index h0 < i) \<Longrightarrow>
     (\<forall>h0. closestHit = Some h0 \<longrightarrow> h0 = h \<or> distance h < distance h0)
     \<and> (\<forall>j < length xs. \<forall>t. snd (xs ! j) = Some t \<longrightarrow> i + j < index h \<longrightarrow> distance h < t)"
proof (induction i xs closestHit rule: nearestFrom.induct)
  case (1 i closestHit)
  then show ?case by simp
next
  case (2 i cube rest closestHit)
  have pre: "\<forall>h0. closestHit = Some h0 \<longrightarrow> index h0 < Suc i" using 2(3) by auto
  have r: "nearestFrom (Suc i) rest closestHit = Some h" using 2(2) by simp
  note ih = 2(1)[OF r pre]
  show ?case
    unfolding nth_Cons_all[of "(cube, None)" rest
        "\<lambda>j x. \<forall>t. snd x = Some t \<longrightarrow> i + j < index h \<longrightarrow> distance h < t"]
    using ih by simp
next
  case (3 i cube t rest closestHit)
  let ?new = "\<lparr>index = i, pmid = PMID cube, article = cube, distance = t\<rparr>"
  show ?case
  proof (cases "case closestHit of None \<Rightarrow> True | Some h \<Rightarrow> t < distance h")
    case True
    then have r: "nearestFrom (Suc i) rest (Some ?new) = Some h" using 3(3) by simp
    have pre: "\<forall>h0. Some ?new = Some h0 \<longrightarrow> index h0 < Suc i" by auto
    from 3(1)[OF True r pre] have ih: "(?new = h \<or> distance h < t)
      \<and> (\<forall>j < length rest. \<forall>t. snd (rest ! j) = Some t \<longrightarrow> Suc i + j < index h \<longrightarrow> distance h < t)"
      by simp
    have d: "distance h \<le> t" using ih by auto
    have c: "\<forall>h0. closestHit = Some h0 \<longrightarrow> h0 = h \<or> distance h < distance h0"
      using True d by (auto split: option.splits)
    have z: "i < index h \<longrightarrow> distance h < t" using ih by auto
    show ?thesis
      unfolding nth_Cons_all[of "(cube, Some t)" rest
        "\<lambda>j x. \<forall>t. snd x = Some t \<longrightarrow> i + j < index h \<longrightarrow> distance h < t"]
      using ih c z by simp
  next
    case False
    then have r: "nearestFrom (Suc i) rest closestHit = Some h" using 3(3) by simp
    have pre: "\<forall>h0. closestHit = Some h0 \<longrightarrow> index h0 < Suc i" using 3(4) by auto
    from 3(2)[OF False r pre] have ih: "(\<forall>h0. closestHit = Some h0 \<longrightarrow> h0 = h \<or> distance h < distance h0)
     \<and> (\<forall>j < length rest. \<forall>t. snd (rest ! j) = Some t \<longrightarrow> Suc i + j < index h \<longrightarrow> distance h < t)" .
    obtain h0 where h0: "closestHit = Some h0" "\<not> t < distance h0"
      using False by (cases closestHit) auto
    have "index h0 < i" using 3(4) h0 by simp
    then have z: "i < index h \<longrightarrow> distance h < t" using ih h0 by auto
    show ?thesis
      unfolding nth_Cons_all[of "(cube, Some t)" rest
        "\<lambda>j x. \<forall>t. snd x = Some t \<longrightarrow> i + j < index h \<longrightarrow> distance h < t"]
      using ih z by simp
  qed
qed

lemma smallerRoot_root:
  assumes "smallerRoot (a, b, c) = Some t"
  shows "a * t * t + b * t + c = 0"
proof -
  let ?D = "b * b - 4 * a * c"
  have D: "0 \<le> ?D" and a: "a \<noteq> 0" and t: "t = (- b - sqrt ?D) / (2 * a)"
    using assms by (auto simp: smallerRoot_def split: if_splits)
  have s: "sqrt ?D * sqrt ?D = ?D" using D by simp
  have "2 * a * t = - b - sqrt ?D" unfolding t using a by simp
  then have "(2 * a * t + b) * (2 * a * t + b) = ?D" using s by simp
  then have "4 * a * (a * t * t + b * t + c) = 0" by (simp add: algebra_simps)
  then show ?thesis using a by simp
qed

lemma smallerRoot_least:
  assumes "smallerRoot (a, b, c) = Some t" and "0 < a" and "a * t' * t' + b * t' + c = 0"
  shows "t \<le> t'"
proof -
  let ?D = "b * b - 4 * a * c"
  have D: "0 \<le> ?D" and t: "t = (- b - sqrt ?D) / (2 * a)"
    using assms(1) by (auto simp: smallerRoot_def split: if_splits)
  have "(2 * a * t' + b) * (2 * a * t' + b) = ?D + 4 * a * (a * t' * t' + b * t' + c)"
    by (simp add: algebra_simps)
  then have sq: "(2 * a * t' + b)\<^sup>2 = ?D" using assms(3) by (simp add: power2_eq_square)
  have "\<bar>2 * a * t' + b\<bar> = sqrt ?D" using sq by (metis real_sqrt_abs)
  then have "- sqrt ?D \<le> 2 * a * t' + b" by linarith
  then have "- b - sqrt ?D \<le> t' * (2 * a)" by (simp add: algebra_simps)
  then have "(- b - sqrt ?D) / (2 * a) \<le> t'" using assms(2) by (simp add: pos_divide_le_eq)
  then show ?thesis unfolding t .
qed

lemma quadratic_leading: "0 \<le> fst (quadratic origin direction c)"
  by (cases origin; cases direction; cases c) simp

lemma acceptedDistance_root:
  assumes "acceptedDistance origin direction (Some c) = Some t"
  shows "0 < t
     \<and> (case quadratic origin direction c of (qa, qb, qc) \<Rightarrow>
          qa * t * t + qb * t + qc = 0
          \<and> (\<forall>t'. qa * t' * t' + qb * t' + qc = 0 \<longrightarrow> t \<le> t'))"
proof -
  obtain qa qb qc where q: "quadratic origin direction c = (qa, qb, qc)"
    by (cases "quadratic origin direction c") auto
  have "smallerRoot (quadratic origin direction c) = Some t \<and> 0 < t"
    using assms unfolding acceptedDistance_def by (auto split: option.splits if_splits)
  then have r: "smallerRoot (qa, qb, qc) = Some t" and pos: "0 < t"
    unfolding q by simp_all
  have "qa \<noteq> 0" using r by (auto simp: smallerRoot_def split: if_splits)
  moreover have "0 \<le> qa" using quadratic_leading[of origin direction c] q by simp
  ultimately have apos: "0 < qa" by simp
  have root: "qa * t * t + qb * t + qc = 0" by (rule smallerRoot_root[OF r])
  have least: "\<forall>t'. qa * t' * t' + qb * t' + qc = 0 \<longrightarrow> t \<le> t'"
    using smallerRoot_least[OF r apos] by blast
  show ?thesis unfolding q using pos root least by simp
qed

lemma centre_not_hit: "acceptedDistance origin direction (Some origin) = None"
proof -
  obtain o0 o1 o2 where o: "origin = (o0, o1, o2)" by (cases origin) auto
  obtain d0 d1 d2 where d: "direction = (d0, d1, d2)" by (cases direction) auto
  let ?a = "d0 * d0 + d1 * d1 + d2 * d2"
  have q: "quadratic origin direction origin = (?a, 0, - ((0.8 * 1.5) * (0.8 * 1.5)))"
    unfolding o d by simp
  have a0: "0 \<le> ?a" by simp
  show ?thesis
  proof (cases "smallerRoot (quadratic origin direction origin)")
    case None
    then show ?thesis by (simp add: acceptedDistance_def)
  next
    case (Some t)
    then have a: "?a \<noteq> 0"
      and t: "t = (- 0 - sqrt (0 * 0 - 4 * ?a * (- ((0.8 * 1.5) * (0.8 * 1.5))))) / (2 * ?a)"
      unfolding q by (auto simp: smallerRoot_def split: if_splits)
    have apos: "0 < ?a" using a a0 by linarith
    have "0 \<le> sqrt (0 * 0 - 4 * ?a * (- ((0.8 * 1.5) * (0.8 * 1.5))))" using a0 by simp
    then have "t \<le> 0" unfolding t using apos by (simp add: divide_nonpos_pos)
    then show ?thesis using Some by (simp add: acceptedDistance_def)
  qed
qed

lemma rayCast_nearestFrom:
  "rayCast dp rnd k origin direction =
     (nearestFrom 0
        (zip (data dp)
           (map (acceptedDistance origin direction) (loopCentres dp rnd k 0 (data dp))))
        None,
      k + drawsPerPosition dp * length (data dp))"
  unfolding rayCast_def by (rule rayCastLoop_nearest) simp

lemma candidate_nth:
  assumes "j < length (data dp)"
  shows "zip (data dp)
           (map (acceptedDistance origin direction) (loopCentres dp rnd k 0 (data dp))) ! j
         = (data dp ! j, acceptedDistance origin direction (pickCentre dp rnd k j))"
  using assms loopCentres_nth[OF assms, of dp rnd k 0]
  by (simp add: loopCentres_length pickCentre_def)

lemma candidate_length:
  "length (zip (data dp)
           (map (acceptedDistance origin direction) (loopCentres dp rnd k 0 (data dp))))
   = length (data dp)"
  by (simp add: loopCentres_length)

lemma rayCast_None_iff:
  "fst (rayCast dp rnd k origin direction) = None \<longleftrightarrow>
     (\<forall>i < length (data dp). acceptedDistance origin direction (pickCentre dp rnd k i) = None)"
proof -
  let ?xs = "zip (data dp)
           (map (acceptedDistance origin direction) (loopCentres dp rnd k 0 (data dp)))"
  have "fst (rayCast dp rnd k origin direction) = None \<longleftrightarrow> (\<forall>x \<in> set ?xs. snd x = None)"
    unfolding rayCast_nearestFrom by (simp add: nearestFrom_None)
  also have "\<dots> \<longleftrightarrow> (\<forall>i < length ?xs. snd (?xs ! i) = None)"
    by (metis in_set_conv_nth)
  also have "\<dots> \<longleftrightarrow> (\<forall>i < length (data dp). snd (?xs ! i) = None)"
    unfolding candidate_length ..
  also have "\<dots> \<longleftrightarrow>
     (\<forall>i < length (data dp). acceptedDistance origin direction (pickCentre dp rnd k i) = None)"
    using candidate_nth[of _ dp origin direction rnd k] by simp
  finally show ?thesis .
qed

lemma rayCast_Some:
  assumes "fst (rayCast dp rnd k origin direction) = Some h"
  shows "index h < length (data dp)
      \<and> article h = data dp ! index h \<and> pmid h = PMID (data dp ! index h)
      \<and> acceptedDistance origin direction (pickCentre dp rnd k (index h)) = Some (distance h)
      \<and> (\<forall>j < length (data dp). \<forall>t.
            acceptedDistance origin direction (pickCentre dp rnd k j) = Some t \<longrightarrow>
            distance h \<le> t \<and> (j < index h \<longrightarrow> distance h < t))"
proof -
  let ?xs = "zip (data dp)
           (map (acceptedDistance origin direction) (loopCentres dp rnd k 0 (data dp)))"
  have n: "nearestFrom 0 ?xs None = Some h" using assms unfolding rayCast_nearestFrom by simp
  obtain j where j: "j < length ?xs" "index h = 0 + j" "snd (?xs ! j) = Some (distance h)"
      "article h = fst (?xs ! j)" "pmid h = PMID (fst (?xs ! j))"
    using nearestFrom_origin[OF n] by auto
  have jl: "j < length (data dp)" using j(1) unfolding candidate_length .
  have ij: "index h = j" using j(2) by simp
  note cj = candidate_nth[OF jl, of origin direction rnd k]
  have a: "index h < length (data dp)" using jl ij by simp
  have b: "article h = data dp ! index h \<and> pmid h = PMID (data dp ! index h)"
    using j(4,5) cj ij by simp
  have c: "acceptedDistance origin direction (pickCentre dp rnd k (index h)) = Some (distance h)"
    using j(3) cj ij by simp
  have least: "\<forall>j < length ?xs. \<forall>t. snd (?xs ! j) = Some t \<longrightarrow> distance h \<le> t"
    using nearestFrom_least[OF n] by blast
  have first: "\<forall>j < length ?xs. \<forall>t. snd (?xs ! j) = Some t \<longrightarrow> 0 + j < index h \<longrightarrow> distance h < t"
    using nearestFrom_first[OF n] by blast
  have d: "\<forall>j < length (data dp). \<forall>t.
            acceptedDistance origin direction (pickCentre dp rnd k j) = Some t \<longrightarrow>
            distance h \<le> t \<and> (j < index h \<longrightarrow> distance h < t)"
  proof (intro allI impI)
    fix i t assume i: "i < length (data dp)"
      and t: "acceptedDistance origin direction (pickCentre dp rnd k i) = Some t"
    have il: "i < length ?xs" using i unfolding candidate_length .
    have s: "snd (?xs ! i) = Some t" using candidate_nth[OF i, of origin direction rnd k] t by simp
    show "distance h \<le> t \<and> (i < index h \<longrightarrow> distance h < t)"
      using least first il s by auto
  qed
  show ?thesis using a b c d by blast
qed

text \<open>
  The test and the choice among the records, for every ray and record set, in terms of the
  centres \<open>pickCentre\<close> that \<open>rayCast\<close> computes: record \<open>i\<close> is tested against the sphere of
  radius \<open>1.5 * 0.8\<close> around its centre through the quadratic \<open>a t^2 + b t + c = 0\<close>; the
  distance of a record is the smaller root of the quadratic, accepted when it is positive,
  so that a ray from the centre of a sphere does not hit it. The result is the record with
  the least accepted distance, the first in record order among equals; it is nothing
  exactly when no record has an accepted distance.
\<close>

lemma rayCast_nearest:
  "(fst (rayCast dp rnd k origin direction) = None \<longleftrightarrow>
      (\<forall>i < length (data dp). acceptedDistance origin direction (pickCentre dp rnd k i) = None))
   \<and> (\<forall>h. fst (rayCast dp rnd k origin direction) = Some h \<longrightarrow>
         index h < length (data dp)
       \<and> article h = data dp ! index h \<and> pmid h = PMID (data dp ! index h)
       \<and> acceptedDistance origin direction (pickCentre dp rnd k (index h)) = Some (distance h)
       \<and> (\<forall>j < length (data dp). \<forall>t.
             acceptedDistance origin direction (pickCentre dp rnd k j) = Some t \<longrightarrow>
             distance h \<le> t \<and> (j < index h \<longrightarrow> distance h < t)))
   \<and> (\<forall>c t. acceptedDistance origin direction (Some c) = Some t \<longrightarrow>
         0 < t
       \<and> (case quadratic origin direction c of (qa, qb, qc) \<Rightarrow>
            qa * t * t + qb * t + qc = 0
            \<and> (\<forall>t'. qa * t' * t' + qb * t' + qc = 0 \<longrightarrow> t \<le> t')))
   \<and> acceptedDistance origin direction (Some origin) = None
   \<and> snd (rayCast dp rnd k origin direction) = k + drawsPerPosition dp * length (data dp)"
proof -
  have a: "fst (rayCast dp rnd k origin direction) = None \<longleftrightarrow>
      (\<forall>i < length (data dp). acceptedDistance origin direction (pickCentre dp rnd k i) = None)"
    by (rule rayCast_None_iff)
  have b: "\<forall>h. fst (rayCast dp rnd k origin direction) = Some h \<longrightarrow>
         index h < length (data dp)
       \<and> article h = data dp ! index h \<and> pmid h = PMID (data dp ! index h)
       \<and> acceptedDistance origin direction (pickCentre dp rnd k (index h)) = Some (distance h)
       \<and> (\<forall>j < length (data dp). \<forall>t.
             acceptedDistance origin direction (pickCentre dp rnd k j) = Some t \<longrightarrow>
             distance h \<le> t \<and> (j < index h \<longrightarrow> distance h < t))"
    using rayCast_Some[of dp rnd k origin direction] by blast
  have c: "\<forall>c t. acceptedDistance origin direction (Some c) = Some t \<longrightarrow>
         0 < t
       \<and> (case quadratic origin direction c of (qa, qb, qc) \<Rightarrow>
            qa * t * t + qb * t + qc = 0
            \<and> (\<forall>t'. qa * t' * t' + qb * t' + qc = 0 \<longrightarrow> t \<le> t'))"
    using acceptedDistance_root[of origin direction] by blast
  have d: "acceptedDistance origin direction (Some origin) = None" by (rule centre_not_hit)
  have e: "snd (rayCast dp rnd k origin direction) = k + drawsPerPosition dp * length (data dp)"
    unfolding rayCast_nearestFrom by simp
  show ?thesis using a b c d e by blast
qed

lemma sqrt_144_25: "sqrt (144 / 25) = 12 / 5"
  by (rule real_sqrt_unique) (simp_all add: power2_eq_square)

lemma twoProcessor_centres:
  "pickCentre twoProcessor noRandom 0 0 = Some (- 2.5, 0, - 2.5)
   \<and> pickCentre twoProcessor noRandom 0 1 = Some (0, 0, - 2.5)"
proof -
  have g: "nat \<lceil>sqrt (real 2)\<rceil> = 2" by (rule ceil_sqrt_unique) simp_all
  have n: "instanceCount twoProcessor = 2" by (simp add: twoProcessor_def newDataProcessor_def)
  have m: "layoutMode twoProcessor = ''grid''" by (simp add: twoProcessor_def newDataProcessor_def)
  have g': "nat \<lceil>sqrt (real (instanceCount twoProcessor))\<rceil> = 2" unfolding n by (rule g)
  show ?thesis
    unfolding pickCentre_def calculatePosition_def positionByGrid_def Let_def g' floor_div_nat
    by (simp add: m)
qed

lemma two_distances:
  "acceptedDistance (5, 0, - 2.5) (- 1, 0, 0) (Some (- 2.5, 0, - 2.5)) = Some 6.3
   \<and> acceptedDistance (5, 0, - 2.5) (- 1, 0, 0) (Some (0, 0, - 2.5)) = Some 3.8"
  by (simp add: acceptedDistance_def smallerRoot_def sqrt_144_25)

text \<open>Of two colinear records that the ray intersects, the nearer one is returned.\<close>

lemma rayCast_colinear_nearer:
  "acceptedDistance (5, 0, - 2.5) (- 1, 0, 0) (pickCentre twoProcessor noRandom 0 0) = Some 6.3
   \<and> acceptedDistance (5, 0, - 2.5) (- 1, 0, 0) (pickCentre twoProcessor noRandom 0 1) = Some 3.8
   \<and> (\<exists>h. fst (rayCast twoProcessor noRandom 0 (5, 0, - 2.5) (- 1, 0, 0)) = Some h
         \<and> index h = 1 \<and> pmid h = ''r1'' \<and> distance h = 3.8)"
proof -
  let ?o = "(5, 0, - 2.5) :: vec3" and ?d = "(- 1, 0, 0) :: vec3"
  note t = rayCast_nearest[of twoProcessor noRandom 0 ?o ?d]
  have c0: "acceptedDistance ?o ?d (pickCentre twoProcessor noRandom 0 0) = Some 6.3"
    using twoProcessor_centres two_distances by simp
  have c1: "acceptedDistance ?o ?d (pickCentre twoProcessor noRandom 0 1) = Some 3.8"
    using twoProcessor_centres two_distances by simp
  have len: "length (data twoProcessor) = 2"
    by (simp add: twoProcessor_def newDataProcessor_def scenarioRecords_def)
  have "fst (rayCast twoProcessor noRandom 0 ?o ?d) \<noteq> None"
  proof
    assume "fst (rayCast twoProcessor noRandom 0 ?o ?d) = None"
    then have "\<forall>i < length (data twoProcessor).
                 acceptedDistance ?o ?d (pickCentre twoProcessor noRandom 0 i) = None"
      using t by blast
    then have "acceptedDistance ?o ?d (pickCentre twoProcessor noRandom 0 1) = None"
      unfolding len by simp
    then show False using c1 by simp
  qed
  then obtain h where h: "fst (rayCast twoProcessor noRandom 0 ?o ?d) = Some h" by auto
  have p: "index h < length (data twoProcessor)
       \<and> pmid h = PMID (data twoProcessor ! index h)
       \<and> acceptedDistance ?o ?d (pickCentre twoProcessor noRandom 0 (index h)) = Some (distance h)
       \<and> (\<forall>j < length (data twoProcessor). \<forall>t.
             acceptedDistance ?o ?d (pickCentre twoProcessor noRandom 0 j) = Some t \<longrightarrow>
             distance h \<le> t \<and> (j < index h \<longrightarrow> distance h < t))"
    using t h by blast
  have all: "\<And>j t. j < length (data twoProcessor) \<Longrightarrow>
             acceptedDistance ?o ?d (pickCentre twoProcessor noRandom 0 j) = Some t \<Longrightarrow>
             distance h \<le> t"
    using p by blast
  have one: "(1::nat) < length (data twoProcessor)" unfolding len by simp
  have le: "distance h \<le> 3.8" by (rule all[OF one c1])
  have own: "acceptedDistance ?o ?d (pickCentre twoProcessor noRandom 0 (index h)) = Some (distance h)"
    using p by blast
  have "index h < 2" using p len by simp
  then have "index h = 0 \<or> index h = 1" by auto
  then have i1: "index h = 1"
  proof
    assume z: "index h = 0"
    have "distance h = 6.3" using own c0 unfolding z by simp
    then show ?thesis using le by simp
  next
    assume "index h = 1" then show ?thesis .
  qed
  have dh: "distance h = 3.8" using own c1 unfolding i1 by simp
  have ph: "pmid h = ''r1''"
    using p i1 by (simp add: twoProcessor_def newDataProcessor_def scenarioRecords_def)
  show ?thesis using c0 c1 h i1 dh ph by blast
qed

lemma calculatePosition_deterministic:
  assumes "drawsPerPosition dp = 0"
  shows "fst (calculatePosition (dp\<lparr>cubeData := c\<rparr>) rnd' k' a i) = fst (calculatePosition dp rnd k a i)"
proof -
  have m: "layoutMode dp \<noteq> ''journal'' \<and> layoutMode dp \<noteq> ''cluster''"
    using assms by (auto simp: drawsPerPosition_def split: if_splits)
  show ?thesis
    using m by (simp add: calculatePosition_def positionByGrid_def positionByYear_def)
qed

text \<open>
  Under the layouts that draw no random numbers (grid and year), the centre tested for
  record \<open>i\<close> is the position \<open>processData\<close> wrote for it.
\<close>

lemma pickCentre_buffer_position:
  assumes "cubeData dp = Some buffer" and "instanceCount dp = length (data dp)"
    and "length (data dp) \<le> length buffer" and "drawsPerPosition dp = 0"
    and "processData dp rnd cy k = Inr (dp', k')" and "i < length (data dp)"
  shows "pickCentre dp' rnd2 k2 i = instPosition (attributesView dp' ! i)"
proof -
  let ?xs = "fst (fillInstances dp rnd cy 0 (data dp) k (replicate (instanceCount dp) zeroInstance))"
  have le: "instanceCount dp \<le> length buffer" using assms(2,3) by simp
  have r: "dp' = dp\<lparr>cubeData := Some (?xs @ drop (instanceCount dp) buffer)\<rparr>"
    using processData_result[OF assms(1) le, of rnd cy k] assms(5) by simp
  obtain dp2 k2' where p2: "processData dp rnd cy k = Inr (dp2, k2')"
    and n: "\<forall>i < length (data dp).
                attributesView dp2 ! i =
                  \<lparr>instPosition =
                     fst (calculatePosition dp rnd (k + drawsPerPosition dp * i) (data dp ! i) i),
                   instColor = calculateColor cy (data dp ! i),
                   instSize = 0.8, instSelected = 0\<rparr>"
    using processData_attributes[OF assms(1,2,3), of rnd cy k] by blast
  have e: "dp2 = dp'" using p2 assms(5) by simp
  have b: "instPosition (attributesView dp' ! i)
            = fst (calculatePosition dp rnd (k + drawsPerPosition dp * i) (data dp ! i) i)"
    using n assms(6) unfolding e by simp
  have "drawsPerPosition dp' = drawsPerPosition dp" unfolding r by (simp add: drawsPerPosition_def)
  then have d0: "drawsPerPosition dp' = 0" using assms(4) by simp
  have "pickCentre dp' rnd2 k2 i
          = fst (calculatePosition (dp\<lparr>cubeData := Some (?xs @ drop (instanceCount dp) buffer)\<rparr>)
                   rnd2 k2 (data dp ! i) i)"
    unfolding pickCentre_def d0 unfolding r by simp
  also have "\<dots> = fst (calculatePosition dp rnd (k + drawsPerPosition dp * i) (data dp ! i) i)"
    by (rule calculatePosition_deterministic[OF assms(4)])
  finally show ?thesis using b by simp
qed

lemma journal_single_position:
  assumes "layoutMode dp = ''journal''" and "data dp = take 1 scenarioRecords"
  shows "fst (calculatePosition dp rnd k (scenarioRecords ! 0) 0) = Some (15, rnd k * 5, 0)"
  using assms
  by (simp add: calculatePosition_def positionByJournal_def Let_def scenarioRecords_def
      indexOf_def)

text \<open>
  C4, at the failing input. One record is uploaded under the journal layout; its cube is
  drawn at \<open>(15, 4.5, 0)\<close>, the height being the first value of \<open>Math.random()\<close> times 5. A
  ray from \<open>(15, 4.5, 10)\<close> towards the cube meets the sphere of radius \<open>1.5 * 0.8\<close> around
  that position at distance 8.8. \<open>rayCast\<close> does not read the position of the record: it
  calls \<open>calculatePosition\<close> again, which draws the next value of \<open>Math.random()\<close>, tests
  the sphere around \<open>(15, 0.5, 0)\<close> and returns no hit.
\<close>

theorem rayCast_tests_redrawn_position:
  "uploadData (setLayoutMode newDataProcessor ''journal'') (take 1 scenarioRecords)
       twoDraws 2026 0 = Inr (journalUploaded, 1)
   \<and> length (attributesView journalUploaded) = 1
   \<and> instPosition (attributesView journalUploaded ! 0) = Some (15, 4.5, 0)
   \<and> acceptedDistance (15, 4.5, 10) (0, 0, - 1)
         (instPosition (attributesView journalUploaded ! 0)) = Some 8.8
   \<and> pickCentre journalUploaded twoDraws 1 0 = Some (15, 0.5, 0)
   \<and> fst (rayCast journalUploaded twoDraws 1 (15, 4.5, 10) (0, 0, - 1)) = None"
proof -
  let ?dp = "(setLayoutMode newDataProcessor ''journal'')
               \<lparr>data := take 1 scenarioRecords,
                instanceCount := length (take 1 scenarioRecords),
                cubeData := Some (replicate (length (take 1 scenarioRecords)) zeroInstance)\<rparr>"
  have a1: "cubeData ?dp = Some (replicate (length (take 1 scenarioRecords)) zeroInstance)"
    by simp
  have a2: "instanceCount ?dp = length (data ?dp)" by simp
  have a3: "length (data ?dp)
              \<le> length (replicate (length (take 1 scenarioRecords)) zeroInstance)" by simp
  have m: "layoutMode ?dp = ''journal''" by (simp add: setLayoutMode_def)
  have d: "data ?dp = take 1 scenarioRecords" by simp
  have len: "length (data ?dp) = 1" by (simp add: scenarioRecords_def)
  have r0: "data ?dp ! 0 = scenarioRecords ! 0" by (simp add: scenarioRecords_def)
  have draws: "drawsPerPosition ?dp = 1" using m by (simp add: drawsPerPosition_def)
  obtain dp' k' where r: "processData ?dp twoDraws 2026 0 = Inr (dp', k')"
    and d': "data dp' = data ?dp" and m': "layoutMode dp' = layoutMode ?dp"
    and l: "length (attributesView dp') = length (data ?dp)"
    and n: "\<forall>i < length (data ?dp).
                attributesView dp' ! i =
                  \<lparr>instPosition =
                     fst (calculatePosition ?dp twoDraws (0 + drawsPerPosition ?dp * i)
                            (data ?dp ! i) i),
                   instColor = calculateColor 2026 (data ?dp ! i),
                   instSize = 0.8, instSelected = 0\<rparr>"
    using processData_attributes[OF a1 a2 a3, of twoDraws 2026 0] by blast
  have le: "instanceCount ?dp
              \<le> length (replicate (length (take 1 scenarioRecords)) zeroInstance)" by simp
  have "k' = 0 + drawsPerPosition ?dp * length (data ?dp)"
    using processData_result[OF a1 le, of twoDraws 2026 0] r by simp
  then have k1: "k' = 1" unfolding draws len by simp
  have up: "uploadData (setLayoutMode newDataProcessor ''journal'') (take 1 scenarioRecords)
              twoDraws 2026 0 = Inr (dp', 1)"
    unfolding uploadData_def r k1 ..
  have u: "journalUploaded = dp'"
    unfolding journalUploaded_def up by (simp add: theProcessor_def)
  have l1: "length (attributesView dp') = 1" using l len by simp
  have z: "(0::nat) < length (data ?dp)" unfolding len by simp
  have "attributesView dp' ! 0 =
          \<lparr>instPosition =
             fst (calculatePosition ?dp twoDraws (0 + drawsPerPosition ?dp * 0) (data ?dp ! 0) 0),
           instColor = calculateColor 2026 (data ?dp ! 0),
           instSize = 0.8, instSelected = 0\<rparr>"
    using n z by blast
  then have "instPosition (attributesView dp' ! 0)
          = fst (calculatePosition ?dp twoDraws (0 + drawsPerPosition ?dp * 0) (data ?dp ! 0) 0)"
    by (simp only: cubeInstance.simps)
  also have "\<dots> = Some (15, twoDraws 0 * 5, 0)"
    unfolding r0 using journal_single_position[OF m d, of twoDraws 0] by simp
  finally have stored: "instPosition (attributesView dp' ! 0) = Some (15, 4.5, 0)"
    by (simp add: twoDraws_def)
  have through: "acceptedDistance (15, 4.5, 10) (0, 0, - 1) (Some (15, 4.5, 0)) = Some 8.8"
    by (simp add: acceptedDistance_def smallerRoot_def sqrt_144_25)
  have dm: "layoutMode dp' = ''journal''" using m' m by simp
  have dd: "data dp' = take 1 scenarioRecords" using d' d by simp
  have dr: "drawsPerPosition dp' = 1" using dm by (simp add: drawsPerPosition_def)
  have d0: "data dp' ! 0 = scenarioRecords ! 0" unfolding dd by (simp add: scenarioRecords_def)
  have "pickCentre dp' twoDraws 1 0 = Some (15, twoDraws 1 * 5, 0)"
    unfolding pickCentre_def dr d0 using journal_single_position[OF dm dd, of twoDraws 1]
    by simp
  then have tested: "pickCentre dp' twoDraws 1 0 = Some (15, 0.5, 0)"
    by (simp add: twoDraws_def)
  have miss: "acceptedDistance (15, 4.5, 10) (0, 0, - 1) (Some (15, 0.5, 0)) = None"
    by (simp add: acceptedDistance_def smallerRoot_def)
  have dl: "length (data dp') = 1" unfolding dd by (simp add: scenarioRecords_def)
  have "\<forall>i < length (data dp').
          acceptedDistance (15, 4.5, 10) (0, 0, - 1) (pickCentre dp' twoDraws 1 i) = None"
    unfolding dl using tested miss by simp
  then have none: "fst (rayCast dp' twoDraws 1 (15, 4.5, 10) (0, 0, - 1)) = None"
    by (simp only: rayCast_None_iff)
  show ?thesis unfolding u using up l1 stored through tested none by simp
qed

section \<open>Attributes of the layout\<close>

lemma calculateColor_unit:
  assumes "currentYear \<noteq> 1950"
  shows "unitColor (calculateColor currentYear a)"
  using assms by (simp add: calculateColor_def unitColor_def Let_def)

lemma float32Finite_bound:
  assumes "\<bar>x\<bar> \<le> 2 ^ 40"
  shows "float32Finite x"
proof -
  have "(2::real) ^ 40 < 2 ^ 128 - 2 ^ 103" by simp
  then show ?thesis using assms unfolding float32Finite_def by linarith
qed

lemma ceil_sqrt_le:
  assumes "0 < n"
  shows "nat \<lceil>sqrt (real n)\<rceil> \<le> n"
proof -
  let ?g = "nat \<lceil>sqrt (real n)\<rceil>"
  have b: "0 < ?g" "(?g - 1) * (?g - 1) < n" using ceil_sqrt_bounds[OF assms] by simp_all
  have "?g - 1 \<le> (?g - 1) * (?g - 1)" by (cases "?g - 1") simp_all
  then have "?g - 1 < n" using b(2) by linarith
  then show ?thesis using b(1) by linarith
qed

lemma lattice_bound:
  fixes g n i c :: nat
  assumes "c < n" and "g \<le> n" and "n < 2 ^ 32"
  shows "\<bar>(real c - real g / 2) * 2.5\<bar> \<le> 2 ^ 40"
proof -
  have nb: "real n \<le> 2 ^ 32"
    using assms(3) by (metis less_imp_le of_nat_le_iff of_nat_numeral of_nat_power)
  have cb: "real c \<le> real n" using assms(1) by simp
  have gb: "real g \<le> real n" using assms(2) by simp
  have "\<bar>real c - real g / 2\<bar> \<le> 2 ^ 32" using nb cb gb by (simp add: abs_le_iff)
  then have "\<bar>real c - real g / 2\<bar> * 2.5 \<le> 2 ^ 32 * 2.5" by simp
  then have "\<bar>(real c - real g / 2) * 2.5\<bar> \<le> 2 ^ 32 * 2.5" by (simp add: abs_mult)
  then show ?thesis by simp
qed

lemma grid_finite:
  assumes "i < instanceCount dp" and "instanceCount dp < 2 ^ 32"
  shows "finitePosition (positionByGrid dp a i)"
proof -
  define n where "n = instanceCount dp"
  define g where "g = nat \<lceil>sqrt (real n)\<rceil>"
  have npos: "0 < n" using assms(1) n_def by simp
  have gpos: "0 < g" using ceil_sqrt_bounds[OF npos] g_def by simp
  have gn: "g \<le> n" unfolding g_def by (rule ceil_sqrt_le[OF npos])
  have nb: "n < 2 ^ 32" using assms(2) n_def by simp
  have "i mod g < g" using gpos by simp
  then have m: "i mod g < n" using gn by linarith
  have "i div g \<le> i" by simp
  then have d: "i div g < n" using assms(1) n_def by linarith
  note x = lattice_bound[OF m gn nb]
  note z = lattice_bound[OF d gn nb]
  have p: "positionByGrid dp a i =
     Some ((real (i mod g) - real g / 2) * 2.5, 0, (real (i div g) - real g / 2) * 2.5)"
    unfolding positionByGrid_def Let_def floor_div_nat n_def[symmetric] g_def[symmetric]
    using gpos by simp
  show ?thesis
    unfolding p finitePosition_def
    using float32Finite_bound[OF x] float32Finite_bound[OF z] float32Finite_bound[of 0] by simp
qed

lemma count_bound:
  fixes c n :: nat
  assumes "c \<le> n" and "n < 2 ^ 32"
  shows "real c \<le> 2 ^ 32"
proof -
  have "real n \<le> 2 ^ 32"
    using assms(2) by (metis less_imp_le of_nat_le_iff of_nat_numeral of_nat_power)
  moreover have "real c \<le> real n" using assms(1) by simp
  ultimately show ?thesis by linarith
qed

lemma yearOffset_exact:
  assumes "\<bar>yearOr2000 a\<bar> \<le> 2 ^ 51"
  shows "yearOffset a = Some (of_int ((yearOr2000 a - 1990) * 3))"
proof -
  define y where "y = yearOr2000 a"
  define d where "d = y - 1990"
  define t where "t = d * 3"
  have b: "\<bar>y\<bar> \<le> 2 ^ 51" using assms y_def by simp
  have "\<bar>y\<bar> < 2 ^ 53" using b by simp
  then have r1: "roundDouble (of_int y) = Some (of_int y)" by (rule roundDouble_int)
  have "\<bar>d\<bar> < 2 ^ 53" using b d_def by simp
  then have r2: "roundDouble (of_int d) = Some (of_int d)" by (rule roundDouble_int)
  have "\<bar>t\<bar> < 2 ^ 53" using b d_def t_def by simp
  then have r3: "roundDouble (of_int t) = Some (of_int t)" by (rule roundDouble_int)
  have e2: "(of_int y :: real) - 1990 = of_int d" unfolding d_def by simp
  have e3: "(of_int d :: real) * 3 = of_int t" unfolding t_def by simp
  have "yearOffset a = Some (of_int t)"
    unfolding yearOffset_def y_def[symmetric] subDouble_def mulDouble_def
    by (simp only: r1 bind.bind_lunit e2 r2 e3 r3)
  then show ?thesis unfolding t_def d_def y_def .
qed

lemma safe_year_finite:
  assumes "\<bar>yearOr2000 a\<bar> \<le> 2 ^ 51"
  shows "yearOffsetFinite a"
proof -
  have "\<bar>(yearOr2000 a - 1990) * 3\<bar> \<le> 2 ^ 53" using assms by simp
  then have "\<bar>of_int ((yearOr2000 a - 1990) * 3) :: real\<bar> \<le> 2 ^ 53"
    by (metis of_int_abs of_int_le_numeral_power_cancel_iff)
  then have "\<bar>of_int ((yearOr2000 a - 1990) * 3) :: real\<bar> \<le> 2 ^ 40 * 2 ^ 13" by simp
  then have "float32Finite (of_int ((yearOr2000 a - 1990) * 3))"
    unfolding float32Finite_def by simp
  then show ?thesis unfolding yearOffsetFinite_def yearOffset_exact[OF assms] by simp
qed

lemma year_finite:
  assumes "length (data dp) < 2 ^ 32"
  shows "finitePosition (positionByYear dp a i) \<longleftrightarrow> yearOffsetFinite a"
proof -
  let ?yd = "filter (\<lambda>b. PubYear b = PubYear a) (data dp)"
  let ?yi = "findIndex (\<lambda>b. PMID b = PMID a) ?yd"
  have r: "- 1 \<le> ?yi \<and> ?yi < int (length ?yd)" by (rule findIndex_range)
  have "length ?yd \<le> length (data dp)" by simp
  then have l: "real (length ?yd) \<le> 2 ^ 32" using assms(1) by (rule count_bound)
  have "real_of_int ?yi < real (length ?yd)" using r by linarith
  then have u: "real_of_int ?yi \<le> 2 ^ 32" using l by linarith
  have lo: "- 1 \<le> real_of_int ?yi" using r by linarith
  have "\<bar>real_of_int ?yi\<bar> \<le> 2 ^ 32" using u lo by (simp add: abs_le_iff)
  then have "\<bar>real_of_int ?yi\<bar> * 1.5 \<le> 2 ^ 32 * 1.5" by simp
  then have "\<bar>real_of_int ?yi * 1.5\<bar> \<le> 2 ^ 32 * 1.5" by (simp add: abs_mult)
  then have y: "\<bar>real_of_int ?yi * 1.5\<bar> \<le> 2 ^ 40" by simp
  show ?thesis
  proof (cases "yearOffset a")
    case None
    then show ?thesis
      by (simp add: positionByYear_def Let_def finitePosition_def yearOffsetFinite_def)
  next
    case (Some x)
    then show ?thesis
      unfolding positionByYear_def Let_def finitePosition_def yearOffsetFinite_def
      using float32Finite_bound[OF y] float32Finite_bound[of 0] by simp
  qed
qed

lemma uniq_seen: "seen \<noteq> [] \<Longrightarrow> uniq seen xs \<noteq> []"
  by (induction xs arbitrary: seen) auto

lemma uniq_nonempty: "xs \<noteq> [] \<Longrightarrow> uniq [] xs \<noteq> []"
  by (cases xs) (simp_all add: uniq_seen)

lemma journal_finite:
  assumes "data dp \<noteq> []" and "0 \<le> rnd k \<and> rnd k < 1"
  shows "finitePosition (fst (positionByJournal dp rnd k a i))"
proof -
  let ?js = "uniq [] (map Source (data dp))"
  let ?angle = "(of_int (indexOf ?js (Source a)) / real (length ?js)) * pi * 2"
  have "map Source (data dp) \<noteq> []" using assms(1) by simp
  then have "?js \<noteq> []" by (rule uniq_nonempty)
  then have l: "length ?js \<noteq> 0" by simp
  have p: "fst (positionByJournal dp rnd k a i)
            = Some (cos ?angle * 15, rnd k * 5, sin ?angle * 15)"
    unfolding positionByJournal_def Let_def using l by simp
  have "\<bar>cos ?angle\<bar> \<le> 1" by (rule abs_cos_le_one)
  then have "\<bar>cos ?angle\<bar> * 15 \<le> 15" by simp
  then have "\<bar>cos ?angle * 15\<bar> \<le> 15" by (simp add: abs_mult)
  then have x: "\<bar>cos ?angle * 15\<bar> \<le> 2 ^ 40" by simp
  have "\<bar>sin ?angle\<bar> \<le> 1" by (rule abs_sin_le_one)
  then have "\<bar>sin ?angle\<bar> * 15 \<le> 15" by simp
  then have "\<bar>sin ?angle * 15\<bar> \<le> 15" by (simp add: abs_mult)
  then have z: "\<bar>sin ?angle * 15\<bar> \<le> 2 ^ 40" by simp
  have "\<bar>rnd k * 5\<bar> \<le> 5" using assms(2) by (simp add: abs_le_iff)
  then have y: "\<bar>rnd k * 5\<bar> \<le> 2 ^ 40" by simp
  show ?thesis
    unfolding p finitePosition_def
    using float32Finite_bound[OF x] float32Finite_bound[OF y] float32Finite_bound[OF z] by simp
qed

lemma jitter_bound:
  fixes c n :: nat and r :: real
  assumes "c \<le> n" and "n < 2 ^ 32" and "0 \<le> r \<and> r < 1"
  shows "\<bar>real c * 6 + (r - 0.5) * 2\<bar> \<le> 2 ^ 40"
proof -
  have cb: "real c \<le> 2 ^ 32" using assms(1,2) by (rule count_bound)
  have c0: "0 \<le> real c" by simp
  have "\<bar>real c * 6 + (r - 0.5) * 2\<bar> \<le> 2 ^ 32 * 6 + 1"
    using cb c0 assms(3) by (simp add: abs_le_iff)
  then show ?thesis by simp
qed

lemma cluster_finite:
  assumes "i < instanceCount dp" and "instanceCount dp < 2 ^ 32"
    and "\<forall>j. 0 \<le> rnd j \<and> rnd j < 1"
  shows "finitePosition (fst (positionByCluster dp rnd k a i))"
proof -
  define cs where "cs = nat \<lceil>sqrt (real (instanceCount dp) / 4)\<rceil>"
  have "0 < sqrt (real (instanceCount dp) / 4)" using assms(1) by simp
  then have "0 < \<lceil>sqrt (real (instanceCount dp) / 4)\<rceil>" by simp
  then have cpos: "0 < cs" unfolding cs_def by simp
  have "i div cs \<le> i" by simp
  then have d: "i div cs \<le> instanceCount dp" using assms(1) by linarith
  have "i mod cs \<le> i" by simp
  then have m: "i mod cs \<le> instanceCount dp" using assms(1) by linarith
  have fl: "\<lfloor>real i / real cs\<rfloor> = int (i div cs)" by (rule floor_div_nat)
  have p: "fst (positionByCluster dp rnd k a i)
      = Some (real (i div cs) * 6 + (rnd k - 0.5) * 2,
              (rnd (k + 1) - 0.5) * 3,
              real (i mod cs) * 6 + (rnd (k + 2) - 0.5) * 2)"
    unfolding positionByCluster_def Let_def cs_def[symmetric] fl using cpos by simp
  have r0: "0 \<le> rnd k \<and> rnd k < 1" and r1: "0 \<le> rnd (k + 1) \<and> rnd (k + 1) < 1"
    and r2: "0 \<le> rnd (k + 2) \<and> rnd (k + 2) < 1" using assms(3) by simp_all
  note x = jitter_bound[OF d assms(2) r0]
  note z = jitter_bound[OF m assms(2) r2]
  have "\<bar>rnd (k + 1) - 0.5\<bar> \<le> 1" using r1 by (simp add: abs_le_iff)
  then have "\<bar>rnd (k + 1) - 0.5\<bar> * 3 \<le> 1 * 3" by (rule mult_right_mono) simp
  then have "\<bar>(rnd (k + 1) - 0.5) * 3\<bar> \<le> 3" by (simp add: abs_mult)
  then have y: "\<bar>(rnd (k + 1) - 0.5) * 3\<bar> \<le> 2 ^ 40" by simp
  show ?thesis
    unfolding p finitePosition_def
    using float32Finite_bound[OF x] float32Finite_bound[OF y] float32Finite_bound[OF z] by simp
qed

lemma calculatePosition_finite:
  assumes "i < instanceCount dp" and "instanceCount dp = length (data dp)"
    and "length (data dp) < 2 ^ 32" and "\<forall>j. 0 \<le> rnd j \<and> rnd j < 1"
    and "layoutMode dp \<noteq> ''year'' \<or> yearOffsetFinite a"
  shows "finitePosition (fst (calculatePosition dp rnd k a i))"
proof -
  have nb: "instanceCount dp < 2 ^ 32" using assms(2,3) by simp
  have ne: "data dp \<noteq> []" using assms(1,2) by auto
  have rk: "0 \<le> rnd k \<and> rnd k < 1" using assms(4) by simp
  show ?thesis
  proof (cases "layoutMode dp = ''year''")
    case True
    then have "yearOffsetFinite a" using assms(5) by simp
    then show ?thesis
      unfolding calculatePosition_def using True year_finite[OF assms(3)] by simp
  next
    case ny: False
    show ?thesis
    proof (cases "layoutMode dp = ''journal''")
      case True
      then show ?thesis
        unfolding calculatePosition_def using ny journal_finite[of dp rnd k, OF ne rk] by simp
    next
      case nj: False
      show ?thesis
      proof (cases "layoutMode dp = ''cluster''")
        case True
        then show ?thesis
          unfolding calculatePosition_def
          using ny nj cluster_finite[of i dp rnd, OF assms(1) nb assms(4)] by simp
      next
        case False
        then show ?thesis
          unfolding calculatePosition_def
          using ny nj grid_finite[OF assms(1) nb] by simp
      qed
    qed
  qed
qed

text \<open>
  C7 (amended). For every record sequence of fewer than \<open>2^32\<close> records, including the
  empty one, with a current year other than 1950 and \<open>Math.random()\<close> in \<open>[0, 1)\<close>,
  \<open>processData\<close> produces exactly one attribute tuple per record and each colour component
  lies in \<open>[0, 1]\<close>. The position components are finite and not \<open>NaN\<close> under the grid,
  journal and cluster layouts. Under the year layout they are so exactly for the records
  whose offset \<open>(year - 1990) * 3\<close>, as the doubles compute it, is below \<open>2^128 - 2^103\<close> in
  magnitude, which is the case for every year of magnitude at most \<open>2^51\<close>. The empty
  record set yields an empty attribute sequence and no error.
\<close>

theorem processData_layout:
  assumes "cubeData dp = Some buffer" and "instanceCount dp = length (data dp)"
    and "length (data dp) \<le> length buffer" and "currentYear \<noteq> 1950"
    and "\<forall>j. 0 \<le> rnd j \<and> rnd j < 1" and "length (data dp) < 2 ^ 32"
  shows "\<exists>dp' k'. processData dp rnd currentYear k = Inr (dp', k')
    \<and> length (attributesView dp') = length (data dp)
    \<and> (\<forall>i < length (data dp).
          unitColor (instColor (attributesView dp' ! i))
          \<and> (layoutMode dp \<noteq> ''year'' \<or> \<bar>yearOr2000 (data dp ! i)\<bar> \<le> 2 ^ 51 \<longrightarrow>
               finitePosition (instPosition (attributesView dp' ! i)))
          \<and> (layoutMode dp = ''year'' \<longrightarrow>
               (finitePosition (instPosition (attributesView dp' ! i))
                  \<longleftrightarrow> yearOffsetFinite (data dp ! i))))
    \<and> (data dp = [] \<longrightarrow> attributesView dp' = [])"
proof -
  obtain dp' k' where r: "processData dp rnd currentYear k = Inr (dp', k')"
    and l: "length (attributesView dp') = length (data dp)"
    and n: "\<forall>i < length (data dp).
                attributesView dp' ! i =
                  \<lparr>instPosition =
                     fst (calculatePosition dp rnd (k + drawsPerPosition dp * i) (data dp ! i) i),
                   instColor = calculateColor currentYear (data dp ! i),
                   instSize = 0.8, instSelected = 0\<rparr>"
    using processData_attributes[OF assms(1,2,3), of rnd currentYear k] by blast
  have each: "\<forall>i < length (data dp).
          unitColor (instColor (attributesView dp' ! i))
          \<and> (layoutMode dp \<noteq> ''year'' \<or> \<bar>yearOr2000 (data dp ! i)\<bar> \<le> 2 ^ 51 \<longrightarrow>
               finitePosition (instPosition (attributesView dp' ! i)))
          \<and> (layoutMode dp = ''year'' \<longrightarrow>
               (finitePosition (instPosition (attributesView dp' ! i))
                  \<longleftrightarrow> yearOffsetFinite (data dp ! i)))"
  proof (intro allI impI conjI)
    fix i assume i: "i < length (data dp)"
    have c: "instColor (attributesView dp' ! i) = calculateColor currentYear (data dp ! i)"
      using n i by simp
    show "unitColor (instColor (attributesView dp' ! i))"
      unfolding c by (rule calculateColor_unit[OF assms(4)])
  next
    fix i assume i: "i < length (data dp)"
      and y: "layoutMode dp \<noteq> ''year'' \<or> \<bar>yearOr2000 (data dp ! i)\<bar> \<le> 2 ^ 51"
    have p: "instPosition (attributesView dp' ! i)
        = fst (calculatePosition dp rnd (k + drawsPerPosition dp * i) (data dp ! i) i)"
      using n i by simp
    have ii: "i < instanceCount dp" using i assms(2) by simp
    have y': "layoutMode dp \<noteq> ''year'' \<or> yearOffsetFinite (data dp ! i)"
      using y safe_year_finite by blast
    show "finitePosition (instPosition (attributesView dp' ! i))"
      unfolding p by (rule calculatePosition_finite[OF ii assms(2) assms(6) assms(5) y'])
  next
    fix i assume i: "i < length (data dp)" and m: "layoutMode dp = ''year''"
    have p: "instPosition (attributesView dp' ! i) = positionByYear dp (data dp ! i) i"
      using n i m by (simp add: calculatePosition_def)
    show "finitePosition (instPosition (attributesView dp' ! i))
            \<longleftrightarrow> yearOffsetFinite (data dp ! i)"
      unfolding p by (rule year_finite[OF assms(6)])
  qed
  have e: "data dp = [] \<longrightarrow> attributesView dp' = []" using l by auto
  show ?thesis using r l each e by blast
qed

lemma parseInt_2010_offset: "yearOr2000 (scenarioRecords ! 3) = 2010"
  by (simp add: yearOr2000_def scenarioRecords_def parseInt_2010)

theorem processData_layout_witness:
  "cubeData scenarioWithBuffer = Some (replicate 4 zeroInstance)
   \<and> instanceCount scenarioWithBuffer = length (data scenarioWithBuffer)
   \<and> length (data scenarioWithBuffer) \<le> length (replicate 4 zeroInstance)
   \<and> (2026::int) \<noteq> 1950 \<and> (\<forall>j. 0 \<le> noRandom j \<and> noRandom j < 1)
   \<and> length (data scenarioWithBuffer) < 2 ^ 32
   \<and> (\<exists>dp' k'. processData scenarioWithBuffer noRandom 2026 0 = Inr (dp', k')
         \<and> length (attributesView dp') = 4
         \<and> unitColor (instColor (attributesView dp' ! 3))
         \<and> finitePosition (instPosition (attributesView dp' ! 3)))
   \<and> \<bar>yearOr2000 (data (setLayoutMode scenarioWithBuffer ''year'') ! 3)\<bar> \<le> 2 ^ 51
   \<and> (\<exists>dp' k'. processData (setLayoutMode scenarioWithBuffer ''year'') noRandom 2026 0
                   = Inr (dp', k')
         \<and> length (attributesView dp') = 4
         \<and> finitePosition (instPosition (attributesView dp' ! 3))
         \<and> yearOffsetFinite (scenarioRecords ! 3))
   \<and> (\<exists>dp' k'. processData emptyWithBuffer noRandom 2026 0 = Inr (dp', k')
         \<and> attributesView dp' = [])"
proof -
  have h1: "cubeData scenarioWithBuffer = Some (replicate 4 zeroInstance)"
    by (simp add: scenarioWithBuffer_def)
  have h2: "instanceCount scenarioWithBuffer = length (data scenarioWithBuffer)"
    by (simp add: scenarioWithBuffer_def scenarioProcessor_def scenarioRecords_def)
  have n: "length (data scenarioWithBuffer) = 4"
    by (simp add: scenarioWithBuffer_def scenarioProcessor_def scenarioRecords_def)
  have h3: "length (data scenarioWithBuffer) \<le> length (replicate 4 zeroInstance)"
    unfolding n by simp
  have h4: "(2026::int) \<noteq> 1950" by simp
  have h5: "\<forall>j. 0 \<le> noRandom j \<and> noRandom j < 1" by (simp add: noRandom_def)
  have h6: "length (data scenarioWithBuffer) < 2 ^ 32" unfolding n by simp
  have m: "layoutMode scenarioWithBuffer \<noteq> ''year''"
    by (simp add: scenarioWithBuffer_def scenarioProcessor_def newDataProcessor_def)
  have a: "\<exists>dp' k'. processData scenarioWithBuffer noRandom 2026 0 = Inr (dp', k')
         \<and> length (attributesView dp') = 4
         \<and> unitColor (instColor (attributesView dp' ! 3))
         \<and> finitePosition (instPosition (attributesView dp' ! 3))"
    using processData_layout[OF h1 h2 h3 h4 h5 h6, of 0] m unfolding n by auto
  let ?y = "setLayoutMode scenarioWithBuffer ''year''"
  have y0: "data ?y = scenarioRecords"
    by (simp add: setLayoutMode_def scenarioWithBuffer_def scenarioProcessor_def)
  have y1: "cubeData ?y = Some (replicate 4 zeroInstance)"
    by (simp add: setLayoutMode_def scenarioWithBuffer_def)
  have y2: "instanceCount ?y = length (data ?y)"
    by (simp add: setLayoutMode_def scenarioWithBuffer_def scenarioProcessor_def
        scenarioRecords_def)
  have yn: "length (data ?y) = 4" unfolding y0 by (simp add: scenarioRecords_def)
  have y3: "length (data ?y) \<le> length (replicate 4 zeroInstance)" unfolding yn by simp
  have y6: "length (data ?y) < 2 ^ 32" unfolding yn by simp
  have ym: "layoutMode ?y = ''year''" by (simp add: setLayoutMode_def)
  have yy: "\<bar>yearOr2000 (data ?y ! 3)\<bar> \<le> 2 ^ 51"
    unfolding y0 parseInt_2010_offset by simp
  have three: "(3::nat) < length (data ?y)" unfolding yn by simp
  obtain dp' k' where yr: "processData ?y noRandom 2026 0 = Inr (dp', k')"
    and yl: "length (attributesView dp') = length (data ?y)"
    and ye: "\<forall>i < length (data ?y).
          unitColor (instColor (attributesView dp' ! i))
          \<and> (layoutMode ?y \<noteq> ''year'' \<or> \<bar>yearOr2000 (data ?y ! i)\<bar> \<le> 2 ^ 51 \<longrightarrow>
               finitePosition (instPosition (attributesView dp' ! i)))
          \<and> (layoutMode ?y = ''year'' \<longrightarrow>
               (finitePosition (instPosition (attributesView dp' ! i))
                  \<longleftrightarrow> yearOffsetFinite (data ?y ! i)))"
    using processData_layout[OF y1 y2 y3 h4 h5 y6, of 0] by blast
  have yf: "finitePosition (instPosition (attributesView dp' ! 3))"
    using ye three yy by blast
  have yo: "yearOffsetFinite (scenarioRecords ! 3)"
    using ye three ym yf unfolding y0 by blast
  have b: "\<exists>dp' k'. processData ?y noRandom 2026 0 = Inr (dp', k')
         \<and> length (attributesView dp') = 4
         \<and> finitePosition (instPosition (attributesView dp' ! 3))
         \<and> yearOffsetFinite (scenarioRecords ! 3)"
    using yr yl yf yo unfolding yn by blast
  have e1: "cubeData emptyWithBuffer = Some []" by (simp add: emptyWithBuffer_def)
  have e2: "instanceCount emptyWithBuffer = length (data emptyWithBuffer)"
    by (simp add: emptyWithBuffer_def newDataProcessor_def)
  have e0: "data emptyWithBuffer = []" by (simp add: emptyWithBuffer_def newDataProcessor_def)
  have e3: "length (data emptyWithBuffer) \<le> length ([] :: cubeInstance list)"
    unfolding e0 by simp
  have e6: "length (data emptyWithBuffer) < 2 ^ 32" unfolding e0 by simp
  have c: "\<exists>dp' k'. processData emptyWithBuffer noRandom 2026 0 = Inr (dp', k')
         \<and> attributesView dp' = []"
    using processData_layout[OF e1 e2 e3 h4 h5 e6, of 0] e0 by auto
  show ?thesis using h1 h2 h3 h4 h5 h6 a yy b c by blast
qed

lemma parseInt_huge:
  "parseInt ''1000000000000000000000000000000000000000''
     = Some 1000000000000000000000000000000000000000"
  by (simp add: parseInt_def isWhiteSpace_def digitValue_def)

lemma yearOffset_huge:
  "yearOffset hugeYearRecord = Some 2999999999999999970243226566638182596608"
proof -
  have y: "yearOr2000 hugeYearRecord = 1000000000000000000000000000000000000000"
    by (simp add: yearOr2000_def hugeYearRecord_def parseInt_huge)
  have r1: "roundDouble 1000000000000000000000000000000000000000
              = Some 999999999999999939709166371603178586112"
    using roundDouble_large[of 77 1000000000000000000000000000000000000000]
    by (simp add: roundHalfEven_def)
  have r2: "roundDouble (999999999999999939709166371603178586112 - 1990)
              = Some 999999999999999939709166371603178586112"
    using roundDouble_large[of 77 "999999999999999939709166371603178586112 - 1990"]
    by (simp add: roundHalfEven_def)
  have r3: "roundDouble (999999999999999939709166371603178586112 * 3)
              = Some 2999999999999999970243226566638182596608"
    using roundDouble_large[of 79 "999999999999999939709166371603178586112 * 3"]
    by (simp add: roundHalfEven_def)
  show ?thesis
    unfolding yearOffset_def y subDouble_def mulDouble_def
    using r1 r2 r3 by simp
qed

text \<open>
  One record with the year \<open>10^39\<close> under the year layout: the offset computed for it is
  about \<open>3 * 10^39\<close>, which a \<open>Float32Array\<close> stores as \<open>Infinity\<close>.
\<close>

theorem processData_huge_year_counterexample:
  "length (attributesView hugeYearUploaded) = 1
   \<and> \<not> finitePosition (instPosition (attributesView hugeYearUploaded ! 0))"
proof -
  let ?dp = "(setLayoutMode newDataProcessor ''year'')
               \<lparr>data := [hugeYearRecord], instanceCount := length [hugeYearRecord],
                cubeData := Some (replicate (length [hugeYearRecord]) zeroInstance)\<rparr>"
  have a1: "cubeData ?dp = Some (replicate (length [hugeYearRecord]) zeroInstance)" by simp
  have a2: "instanceCount ?dp = length (data ?dp)" by simp
  have a3: "length (data ?dp) \<le> length (replicate (length [hugeYearRecord]) zeroInstance)" by simp
  obtain dp' k' where r: "processData ?dp noRandom 2026 0 = Inr (dp', k')"
    and l: "length (attributesView dp') = length (data ?dp)"
    and n: "\<forall>i < length (data ?dp).
                attributesView dp' ! i =
                  \<lparr>instPosition =
                     fst (calculatePosition ?dp noRandom (0 + drawsPerPosition ?dp * i) (data ?dp ! i) i),
                   instColor = calculateColor 2026 (data ?dp ! i),
                   instSize = 0.8, instSelected = 0\<rparr>"
    using processData_attributes[OF a1 a2 a3, of noRandom 2026 0] by blast
  have u: "hugeYearUploaded = dp'"
    unfolding hugeYearUploaded_def uploadData_def r by (simp add: theProcessor_def)
  have m: "layoutMode ?dp = ''year''" by (simp add: setLayoutMode_def)
  have "instPosition (attributesView dp' ! 0)
          = fst (calculatePosition ?dp noRandom (0 + drawsPerPosition ?dp * 0) hugeYearRecord 0)"
    using n by simp
  also have "\<dots> = positionByYear ?dp hugeYearRecord 0"
    unfolding calculatePosition_def using m by simp
  finally have p: "instPosition (attributesView dp' ! 0) = positionByYear ?dp hugeYearRecord 0" .
  have "\<not> finitePosition (positionByYear ?dp hugeYearRecord 0)"
    unfolding positionByYear_def Let_def finitePosition_def yearOffset_huge float32Finite_def
    by simp
  then show ?thesis unfolding u using l p by simp
qed

text \<open>
  The rounding decides at the threshold: for the year of \<open>thresholdYearRecord\<close> the exact
  offset \<open>3 * (year - 1990)\<close> is within the float32 range, but the doubles compute
  \<open>2^128 - 2^103\<close>, which is stored as an infinity.
\<close>

lemma yearOffset_threshold:
  "float32Finite (of_int ((yearOr2000 thresholdYearRecord - 1990) * 3))
   \<and> yearOffset thresholdYearRecord = Some (2 ^ 128 - 2 ^ 103)
   \<and> \<not> yearOffsetFinite thresholdYearRecord"
proof -
  have y: "yearOr2000 thresholdYearRecord = 113427452259911220545846465152714191471"
    by (simp add: yearOr2000_def thresholdYearRecord_def parseInt_def isWhiteSpace_def
        digitValue_def)
  have r1: "roundDouble 113427452259911220545846465152714191471
              = Some 113427452259911226842335108978907807744"
    using roundDouble_large[of 74 113427452259911220545846465152714191471]
    by (simp add: roundHalfEven_def)
  have r2: "roundDouble (113427452259911226842335108978907807744 - 1990)
              = Some 113427452259911226842335108978907807744"
    using roundDouble_large[of 74 "113427452259911226842335108978907807744 - 1990"]
    by (simp add: roundHalfEven_def)
  have r3: "roundDouble (113427452259911226842335108978907807744 * 3)
              = Some 340282356779733661637539395458142568448"
    using roundDouble_large[of 75 "113427452259911226842335108978907807744 * 3"]
    by (simp add: roundHalfEven_def)
  have o: "yearOffset thresholdYearRecord = Some 340282356779733661637539395458142568448"
    unfolding yearOffset_def y subDouble_def mulDouble_def
    using r1 r2 r3 by simp
  have e: "(340282356779733661637539395458142568448 :: real) = 2 ^ 128 - 2 ^ 103" by simp
  have a: "float32Finite (of_int ((yearOr2000 thresholdYearRecord - 1990) * 3))"
    unfolding y float32Finite_def by simp
  have c: "\<not> yearOffsetFinite thresholdYearRecord"
    unfolding yearOffsetFinite_def o float32Finite_def by simp
  show ?thesis using a o c unfolding e by simp
qed

end
